theory Spec2Isabelle
  imports Main
begin

section \<open>Strings, bytes and Python errors\<close>

text \<open>
  File names and addresses are Python \<open>str\<close> values, modelled as \<open>string\<close> (lists of
  8-bit characters). Case folding is the ASCII one: inside this range \<open>str.lower\<close> and
  \<open>re.IGNORECASE\<close> relate exactly the letters \<open>A\<close>..\<open>Z\<close> to \<open>a\<close>..\<open>z\<close> among the
  characters the patterns and the \<open>.zip\<close> suffix test look at. Characters are
  classified by their code: \<open>A\<close>..\<open>Z\<close> are 65..90, \<open>a\<close>..\<open>z\<close> are 97..122 and
  \<open>0\<close>..\<open>9\<close> are 48..57.
\<close>

type_synonym bytes = string

datatype py_error =
    IndexError
  | KeyError string
  | BadZipFile
  | IsADirectoryError string
  | FileNotFoundError string

definition is_upper :: "char \<Rightarrow> bool" where
  "is_upper c = (65 \<le> (of_char c :: nat) \<and> (of_char c :: nat) \<le> 90)"

definition is_lower :: "char \<Rightarrow> bool" where
  "is_lower c = (97 \<le> (of_char c :: nat) \<and> (of_char c :: nat) \<le> 122)"

definition is_digit :: "char \<Rightarrow> bool" where
  "is_digit c = (48 \<le> (of_char c :: nat) \<and> (of_char c :: nat) \<le> 57)"

definition lower_char :: "char \<Rightarrow> char" where
  "lower_char c = (if is_upper c then char_of (of_char c + (32 :: nat)) else c)"

definition str_lower :: "string \<Rightarrow> string" where
  "str_lower s = map lower_char s"

definition startswith :: "string \<Rightarrow> string \<Rightarrow> bool" where
  "startswith s pre = (take (length pre) s = pre)"

definition endswith :: "string \<Rightarrow> string \<Rightarrow> bool" where
  "endswith s suf = (length suf \<le> length s \<and> drop (length s - length suf) s = suf)"

definition str_replace :: "char \<Rightarrow> char \<Rightarrow> string \<Rightarrow> string" where
  "str_replace old new s = map (\<lambda>c. if c = old then new else c) s"

text \<open>\<open>s.split(c)\<close> for a one-character separator: never empty, one more part than
  there are separators.\<close>

fun str_split :: "char \<Rightarrow> string \<Rightarrow> string list" where
  "str_split c [] = [[]]"
| "str_split c (x # xs) =
     (if x = c then [] # str_split c xs
      else (case str_split c xs of
              p # ps \<Rightarrow> (x # p) # ps
            | [] \<Rightarrow> [[x]]))"

text \<open>\<open>c.join(parts)\<close>.\<close>

fun str_join :: "char \<Rightarrow> string list \<Rightarrow> string" where
  "str_join c [] = []"
| "str_join c [p] = p"
| "str_join c (p # q # ps) = p @ c # str_join c (q # ps)"

definition lstrip :: "char \<Rightarrow> string \<Rightarrow> string" where
  "lstrip c s = dropWhile (\<lambda>x. x = c) s"

section \<open>Pattern Registry\<close>

text \<open>
  The regular expressions of \<open>PATRONES_ESTRUCTURADOS\<close> use only: literal text, the classes
  \<open>\d\<close>, \<open>[A-Z]\<close> and \<open>[A-Z0-9]\<close> with counted or \<open>+\<close> repetition, alternation of literal
  words, capturing groups around one such item, and one optional non-capturing prefix
  \<open>(?:\d{11}-)?\<close>; every pattern is anchored by \<open>^\<close> and \<open>$\<close> and compiled with
  \<open>re.IGNORECASE\<close>. The matcher below is a backtracking matcher for that fragment: it
  lists the ways a pattern can match in the order Python's engine tries them (greedy
  repetition first, alternatives left to right, the optional prefix taken first).
\<close>

datatype cclass = CDigit | CAlpha | CAlnum

datatype atom =
    Lit string
  | Rep cclass nat nat
  | OneOrMore cclass
  | Alt "string list"

datatype tok =
    Plain atom
  | Group atom
  | OptSeq "atom list"

fun in_class :: "cclass \<Rightarrow> char \<Rightarrow> bool" where
  "in_class CDigit c = is_digit c"
| "in_class CAlpha c = (is_upper c \<or> is_lower c)"
| "in_class CAlnum c = (is_upper c \<or> is_lower c \<or> is_digit c)"

definition lit_matches :: "string \<Rightarrow> string \<Rightarrow> (string \<times> string) list" where
  "lit_matches l s =
     (if length l \<le> length s \<and> str_lower (take (length l) s) = str_lower l
      then [(take (length l) s, drop (length l) s)] else [])"

definition rep_matches :: "cclass \<Rightarrow> nat \<Rightarrow> nat \<Rightarrow> string \<Rightarrow> (string \<times> string) list" where
  "rep_matches c lo hi s =
     (let k = min hi (length (takeWhile (in_class c) s))
      in map (\<lambda>n. (take n s, drop n s)) (rev [lo ..< Suc k]))"

fun atom_matches :: "atom \<Rightarrow> string \<Rightarrow> (string \<times> string) list" where
  "atom_matches (Lit l) s = lit_matches l s"
| "atom_matches (Rep c lo hi) s = rep_matches c lo hi s"
| "atom_matches (OneOrMore c) s = rep_matches c 1 (length s) s"
| "atom_matches (Alt ls) s = concat (map (\<lambda>l. lit_matches l s) ls)"

fun seq_matches :: "atom list \<Rightarrow> string \<Rightarrow> string list" where
  "seq_matches [] s = [s]"
| "seq_matches (a # as) s = concat (map (\<lambda>(m, r). seq_matches as r) (atom_matches a s))"

fun toks_matches :: "tok list \<Rightarrow> string \<Rightarrow> (string list \<times> string) list" where
  "toks_matches [] s = [([], s)]"
| "toks_matches (Plain a # ts) s =
     concat (map (\<lambda>(m, r). toks_matches ts r) (atom_matches a s))"
| "toks_matches (Group a # ts) s =
     concat (map (\<lambda>(m, r). map (\<lambda>(gs, r'). (m # gs, r')) (toks_matches ts r))
                 (atom_matches a s))"
| "toks_matches (OptSeq as # ts) s =
     concat (map (\<lambda>r. toks_matches ts r) (seq_matches as s @ [s]))"

text \<open>Without \<open>re.MULTILINE\<close>, \<open>$\<close> matches at the end of the string and just before a
  newline that ends the string.\<close>

definition at_end :: "string \<Rightarrow> bool" where
  "at_end r = (r = [] \<or> r = [CHR 0x0A])"

text \<open>\<open>pattern.match(filename)\<close> followed by \<open>match.groups()\<close>: the groups of the first
  successful way to match, or \<open>None\<close>.\<close>

definition re_match :: "tok list \<Rightarrow> string \<Rightarrow> string list option" where
  "re_match p s =
     (case filter (\<lambda>(gs, r). at_end r) (toks_matches p s) of
        [] \<Rightarrow> None
      | (gs, r) # _ \<Rightarrow> Some gs)"

abbreviation digits_group :: "nat \<Rightarrow> tok" where
  "digits_group n \<equiv> Group (Rep CDigit n n)"

abbreviation lit :: "string \<Rightarrow> tok" where
  "lit s \<equiv> Plain (Lit s)"

definition optional_ruc_prefix :: tok where
  "optional_ruc_prefix = OptSeq [Rep CDigit 11 11, Lit ''-'']"

definition comprobante :: "string \<Rightarrow> string list \<Rightarrow> tok list" where
  "comprobante tipo exts =
     [optional_ruc_prefix, Group (Lit tipo), lit ''-'', Group (Rep CAlnum 4 4), lit ''-'',
      Group (Rep CDigit 1 8), lit ''.'', Group (Alt exts)]"

definition constancia_sunat :: "string \<Rightarrow> tok list" where
  "constancia_sunat prefix =
     [lit prefix, digits_group 11, lit ''_'', digits_group 13, lit ''_'', digits_group 14,
      lit ''_'', digits_group 9, lit ''.'', Group (Lit ''pdf'')]"

type_synonym registry = "(string \<times> tok list \<times> string list) list"

definition PATRONES_ESTRUCTURADOS :: registry where
  "PATRONES_ESTRUCTURADOS =
   [(''guia_remision'',
       [digits_group 11, lit ''-09-'', Group (Rep CAlnum 4 4), lit ''-'',
        Group (Rep CDigit 1 8), lit ''.'', Group (Alt [''pdf'', ''xml''])],
       [''ruc'', ''serie'', ''correlativo'', ''ext'']),
    (''reporte_planilla_zip'',
       [digits_group 11, lit ''_'', Plain (OneOrMore CAlpha), lit ''_'', digits_group 8,
        lit ''.'', Group (Lit ''zip'')],
       [''ruc'', ''periodo'', ''ext'']),
    (''declaraciones_pagos'',
       [lit ''DetalleDeclaraciones_'', digits_group 11, lit ''_'', digits_group 14,
        lit ''.'', Group (Lit ''xlsx'')],
       [''ruc'', ''timestamp'', ''ext'']),
    (''ficha_ruc'',
       [lit ''reporteec_ficharuc_'', digits_group 11, lit ''_'', digits_group 14,
        lit ''.'', Group (Lit ''pdf'')],
       [''ruc'', ''timestamp'', ''ext'']),
    (''ingreso_recaudacion'', constancia_sunat ''ridetrac_'',
       [''ruc'', ''num_operacion'', ''timestamp'', ''id'', ''ext'']),
    (''liberacion_fondos'', constancia_sunat ''rilf_'',
       [''ruc'', ''num_operacion'', ''timestamp'', ''id'', ''ext'']),
    (''multa'',
       [lit ''rmgen_'', digits_group 11, lit ''_'', digits_group 3, lit ''-'',
        digits_group 3, lit ''-'', digits_group 7, lit ''_'', digits_group 14, lit ''_'',
        digits_group 9, lit ''.'', Group (Lit ''pdf'')],
       [''ruc'', ''cod1'', ''cod2'', ''num_multa'', ''timestamp'', ''id'', ''ext'']),
    (''notificacion'',
       [lit ''constancia_'', digits_group 14, lit ''_'', digits_group 20, lit ''_'',
        digits_group 13, lit ''_'', digits_group 9, lit ''.'', Group (Lit ''pdf'')],
       [''timestamp'', ''id_notif'', ''num_operacion'', ''id'', ''ext'']),
    (''valores'',
       [lit ''rvalores_'', digits_group 11, lit ''_'', Group (Rep CAlnum 12 17), lit ''_'',
        digits_group 14, lit ''_'', digits_group 9, lit ''.'', Group (Lit ''pdf'')],
       [''ruc'', ''num_valor'', ''timestamp'', ''id'', ''ext'']),
    (''coactiva'', constancia_sunat ''recgen_'',
       [''ruc'', ''num_expediente'', ''timestamp'', ''id'', ''ext'']),
    (''baja_oficio'',
       [lit ''bod_'', digits_group 6, lit ''_'', digits_group 11, lit ''_'', digits_group 4,
        lit ''.'', Group (Lit ''pdf'')],
       [''id_baja'', ''ruc'', ''periodo'', ''ext'']),
    (''factura'', comprobante ''01'' [''xml'', ''zip'', ''pdf''],
       [''tipo_doc'', ''serie'', ''correlativo'', ''ext'']),
    (''boleta'', comprobante ''03'' [''xml'', ''zip'', ''pdf''],
       [''tipo_doc'', ''serie'', ''correlativo'', ''ext'']),
    (''nota_credito'', comprobante ''07'' [''xml'', ''zip'', ''pdf''],
       [''tipo_doc'', ''serie'', ''correlativo'', ''ext'']),
    (''nota_debito'', comprobante ''08'' [''xml'', ''zip'', ''pdf''],
       [''tipo_doc'', ''serie'', ''correlativo'', ''ext'']),
    (''recibo_honorarios'', comprobante ''RHE'' [''xml'', ''pdf''],
       [''tipo_doc'', ''serie'', ''correlativo'', ''ext''])]"

section \<open>Filename Classifier\<close>

text \<open>A record is a Python \<open>dict\<close> from strings to strings: an association list in
  insertion order. \<open>d[k] = v\<close> replaces the value of an existing key in place and appends
  a new key at the end; \<open>d[k]\<close> raises \<open>KeyError\<close> on a missing key and \<open>d.get(k)\<close> gives
  \<open>None\<close>.\<close>

type_synonym pydict = "(string \<times> string) list"

fun dict_set :: "pydict \<Rightarrow> string \<Rightarrow> string \<Rightarrow> pydict" where
  "dict_set [] k v = [(k, v)]"
| "dict_set ((k', v') # d) k v =
     (if k' = k then (k, v) # d else (k', v') # dict_set d k v)"

definition dict_get :: "pydict \<Rightarrow> string \<Rightarrow> string option" where
  "dict_get d k = map_of d k"

definition dict_item :: "pydict \<Rightarrow> string \<Rightarrow> py_error + string" where
  "dict_item d k = (case map_of d k of None \<Rightarrow> Inl (KeyError k) | Some v \<Rightarrow> Inr v)"

text \<open>The loop \<open>for i, field in enumerate(fields): file_info[field] = groups[i]\<close>;
  \<open>groups[i]\<close> raises \<open>IndexError\<close> when the pattern has fewer groups than fields.\<close>

fun assign_fields :: "pydict \<Rightarrow> nat \<Rightarrow> string list \<Rightarrow> string list \<Rightarrow> py_error + pydict" where
  "assign_fields file_info i [] groups = Inr file_info"
| "assign_fields file_info i (field # fields) groups =
     (if i < length groups
      then assign_fields (dict_set file_info field (groups ! i)) (Suc i) fields groups
      else Inl IndexError)"

fun analyze_in :: "registry \<Rightarrow> string \<Rightarrow> string \<Rightarrow> py_error + pydict option" where
  "analyze_in [] filename path = Inr None"
| "analyze_in ((doc_type, pattern, fields) # rest) filename path =
     (case re_match pattern filename of
        None \<Rightarrow> analyze_in rest filename path
      | Some groups \<Rightarrow>
          (case assign_fields
                  [(''classification'', doc_type), (''filename'', filename), (''path'', path)]
                  0 fields groups of
             Inl e \<Rightarrow> Inl e
           | Inr file_info \<Rightarrow> Inr (Some file_info)))"

text \<open>\<open>_analyze_filename(filename, path)\<close>.\<close>

definition analyze_filename :: "string \<Rightarrow> string \<Rightarrow> py_error + pydict option" where
  "analyze_filename filename path = analyze_in PATRONES_ESTRUCTURADOS filename path"

definition lower_split :: "string \<times> string \<Rightarrow> string \<times> string" where
  "lower_split = (\<lambda>(m, r). (str_lower m, str_lower r))"

definition lower_result :: "string list \<times> string \<Rightarrow> string list \<times> string" where
  "lower_result = (\<lambda>(gs, r). (map str_lower gs, str_lower r))"

fun n_groups :: "tok list \<Rightarrow> nat" where
  "n_groups [] = 0"
| "n_groups (Group a # ts) = Suc (n_groups ts)"
| "n_groups (t # ts) = n_groups ts"

definition base_keys :: "string list" where
  "base_keys = [''classification'', ''filename'', ''path'']"

definition classify_spec :: "string \<Rightarrow> string \<Rightarrow> pydict option" where
  "classify_spec filename path =
     (case find (\<lambda>(doc_type, pattern, fields). re_match pattern filename \<noteq> None)
             PATRONES_ESTRUCTURADOS of
        None \<Rightarrow> None
      | Some (doc_type, pattern, fields) \<Rightarrow>
          Some ([(''classification'', doc_type), (''filename'', filename), (''path'', path)]
                @ zip fields (the (re_match pattern filename))))"

definition classification_of :: "py_error + pydict option \<Rightarrow> string option" where
  "classification_of r =
     (case r of Inr (Some d) \<Rightarrow> dict_get d ''classification'' | _ \<Rightarrow> None)"

definition well_formed_entry :: "string \<times> tok list \<times> string list \<Rightarrow> bool" where
  "well_formed_entry = (\<lambda>(doc_type, pattern, fields).
     n_groups pattern = length fields \<and> distinct fields \<and>
     list_all (\<lambda>k. k \<notin> set fields) base_keys)"

section \<open>Archives and the file system\<close>

text \<open>
  The content of a file is what \<open>zipfile\<close> sees in its bytes: either the bytes are not
  a ZIP archive (\<open>zipfile.ZipFile\<close> raises \<open>BadZipFile\<close>), or they are an archive with a
  list of entries in \<open>infolist()\<close> order, each a name and the bytes \<open>read\<close> returns for
  it. Archives nest to any finite depth. A directory lists its children in the order
  \<open>os.scandir\<close> gives them. The file system maps a path to the node found there.
\<close>

datatype blob =
    Data bytes
  | Zip "(string \<times> blob) list"

datatype fsnode =
    File blob
  | Dir "(string \<times> fsnode) list"

type_synonym filesystem = "string \<Rightarrow> fsnode option"

definition os_path_isdir :: "filesystem \<Rightarrow> string \<Rightarrow> bool" where
  "os_path_isdir fs p = (case fs p of Some (Dir _) \<Rightarrow> True | _ \<Rightarrow> False)"

definition os_path_exists :: "filesystem \<Rightarrow> string \<Rightarrow> bool" where
  "os_path_exists fs p = (fs p \<noteq> None)"

text \<open>\<open>os.path\<close> is \<open>posixpath\<close>: \<open>join\<close> adds a slash unless the first part is empty
  or ends in one, \<open>basename\<close> is what follows the last slash, \<open>isabs\<close> asks for a leading
  slash.\<close>

definition os_path_join :: "string \<Rightarrow> string \<Rightarrow> string" where
  "os_path_join a b =
     (if startswith b ''/'' then b
      else if a = [] \<or> endswith a ''/'' then a @ b
      else a @ ''/'' @ b)"

definition os_path_basename :: "string \<Rightarrow> string" where
  "os_path_basename p = rev (takeWhile (\<lambda>c. c \<noteq> CHR ''/'') (rev p))"

definition os_path_isabs :: "string \<Rightarrow> bool" where
  "os_path_isabs p = startswith p ''/''"

text \<open>\<open>os.walk(top)\<close>, top-down: the directory itself with its files, then each
  subdirectory in listing order. Each file comes with the content that opening its path
  gives.\<close>

fun os_walk :: "string \<Rightarrow> (string \<times> fsnode) list \<Rightarrow> (string \<times> (string \<times> blob) list) list" where
  "os_walk dirpath entries =
     (dirpath, concat (map (\<lambda>(name, node). case node of File b \<Rightarrow> [(name, b)] | Dir _ \<Rightarrow> [])
                       entries))
     # concat (map (\<lambda>(name, node). case node of
                                        Dir sub \<Rightarrow> os_walk (os_path_join dirpath name) sub
                                      | File _ \<Rightarrow> [])
                   entries)"

text \<open>\<open>ZipInfo.is_dir()\<close>: the entry name ends in a slash.\<close>

definition zip_is_dir :: "string \<Rightarrow> bool" where
  "zip_is_dir name = endswith name ''/''"

section \<open>Archive Walker and Deduplication Tracker\<close>

datatype warning =
    Invalid_nested_zip string
  | Invalid_zip_on_disk string

record walk_state =
  found_files :: "pydict list"
  seen_filenames :: "string set"
  printed :: "warning list"

text \<open>The block both loops run on a classified name: look the bare name up in
  \<open>seen_filenames\<close>, set \<open>status\<close>, remember a new name, append the record.\<close>

definition mark_status :: "pydict \<Rightarrow> string \<Rightarrow> walk_state \<Rightarrow> walk_state" where
  "mark_status file_details filename st =
     (if filename \<in> seen_filenames st
      then st\<lparr>found_files := found_files st @ [dict_set file_details ''status'' ''DUPLICADO'']\<rparr>
      else st\<lparr>found_files := found_files st @ [dict_set file_details ''status'' ''UNICO''],
              seen_filenames := insert filename (seen_filenames st)\<rparr>)"

definition is_zip_name :: "string \<Rightarrow> bool" where
  "is_zip_name filename = endswith (str_lower filename) ''.zip''"

text \<open>\<open>_analyze_zip_recursively(zip_file, current_path, found_files, seen_filenames)\<close>
  over the entries of the open archive.\<close>

fun analyze_zip_recursively ::
  "(string \<times> blob) list \<Rightarrow> string \<Rightarrow> walk_state \<Rightarrow> py_error + walk_state" where
  "analyze_zip_recursively [] current_path st = Inr st"
| "analyze_zip_recursively ((zname, content) # rest) current_path st =
     (if zip_is_dir zname then analyze_zip_recursively rest current_path st
      else
        (case analyze_filename (os_path_basename zname) (current_path @ '':'' @ zname) of
           Inl e \<Rightarrow> Inl e
         | Inr (Some file_details) \<Rightarrow>
             analyze_zip_recursively rest current_path
               (mark_status file_details (os_path_basename zname) st)
         | Inr None \<Rightarrow>
             (if is_zip_name (os_path_basename zname) then
                (case content of
                   Zip nested \<Rightarrow>
                     (case analyze_zip_recursively nested (current_path @ '':'' @ zname) st of
                        Inl e \<Rightarrow> Inl e
                      | Inr st' \<Rightarrow> analyze_zip_recursively rest current_path st')
                 | Data _ \<Rightarrow>
                     analyze_zip_recursively rest current_path
                       (st\<lparr>printed := printed st
                            @ [Invalid_nested_zip (current_path @ '':'' @ zname)]\<rparr>))
              else analyze_zip_recursively rest current_path st)))"

text \<open>The inner loop of \<open>find_files\<close>, over the files of one directory.\<close>

fun scan_files :: "string \<Rightarrow> (string \<times> blob) list \<Rightarrow> walk_state \<Rightarrow> py_error + walk_state" where
  "scan_files root [] st = Inr st"
| "scan_files root ((file, content) # rest) st =
     (case analyze_filename file (os_path_join root file) of
        Inl e \<Rightarrow> Inl e
      | Inr (Some file_details) \<Rightarrow> scan_files root rest (mark_status file_details file st)
      | Inr None \<Rightarrow>
          (if is_zip_name file then
             (case content of
                Zip entries \<Rightarrow>
                  (case analyze_zip_recursively entries (os_path_join root file) st of
                     Inl e \<Rightarrow> Inl e
                   | Inr st' \<Rightarrow> scan_files root rest st')
              | Data _ \<Rightarrow>
                  scan_files root rest
                    (st\<lparr>printed := printed st @ [Invalid_zip_on_disk (os_path_join root file)]\<rparr>))
           else scan_files root rest st))"

text \<open>The outer loop, over what \<open>os.walk\<close> yields.\<close>

fun scan_walk :: "(string \<times> (string \<times> blob) list) list \<Rightarrow> walk_state \<Rightarrow> py_error + walk_state" where
  "scan_walk [] st = Inr st"
| "scan_walk ((root, files) # rest) st =
     (case scan_files root files st of
        Inl e \<Rightarrow> Inl e
      | Inr st' \<Rightarrow> scan_walk rest st')"

definition initial_state :: walk_state where
  "initial_state = \<lparr>found_files = [], seen_filenames = {}, printed = []\<rparr>"

definition find_files_run :: "filesystem \<Rightarrow> string \<Rightarrow> py_error + walk_state" where
  "find_files_run fs search_path =
     (case fs search_path of
        Some (Dir entries) \<Rightarrow> scan_walk (os_walk search_path entries) initial_state
      | _ \<Rightarrow> Inr initial_state)"

text \<open>\<open>find_files(search_path)\<close>: the list the run leaves in \<open>found_files\<close>.\<close>

definition find_files :: "filesystem \<Rightarrow> string \<Rightarrow> py_error + pydict list" where
  "find_files fs search_path =
     (case find_files_run fs search_path of
        Inl e \<Rightarrow> Inl e
      | Inr st \<Rightarrow> Inr (found_files st))"

text \<open>Reading a record.\<close>

definition filename_of :: "pydict \<Rightarrow> string option" where
  "filename_of d = dict_get d ''filename''"

definition status_of :: "pydict \<Rightarrow> string option" where
  "status_of d = dict_get d ''status''"

definition path_of :: "pydict \<Rightarrow> string option" where
  "path_of d = dict_get d ''path''"

text \<open>What the deduplication claim says of one bare name: among the records carrying
  it, in the order found, the first is \<open>UNICO\<close> and all later ones are \<open>DUPLICADO\<close>.\<close>

definition first_unique :: "pydict list \<Rightarrow> string \<Rightarrow> bool" where
  "first_unique found f =
     (case filter (\<lambda>r. filename_of r = Some f) found of
        [] \<Rightarrow> True
      | r # rs \<Rightarrow> status_of r = Some ''UNICO''
                \<and> list_all (\<lambda>r'. status_of r' = Some ''DUPLICADO'') rs)"

text \<open>The tracker holds exactly the bare names of the records found, and each of them
  is a name the classifier accepts.\<close>

definition tracker_exact :: "walk_state \<Rightarrow> bool" where
  "tracker_exact st =
     (Some ` seen_filenames st = filename_of ` set (found_files st)
      \<and> (\<forall>f \<in> seen_filenames st. classify_spec f [] \<noteq> None))"

definition dedup_invariant :: "walk_state \<Rightarrow> bool" where
  "dedup_invariant st = (tracker_exact st \<and> (\<forall>f. first_unique (found_files st) f))"

text \<open>The part of the walker's state that reaches the caller's records.\<close>

definition records :: "walk_state \<Rightarrow> pydict list \<times> string set" where
  "records st = (found_files st, seen_filenames st)"


text \<open>An entry the walker tries to open: not a directory entry, not classified, named
  \<open>*.zip\<close>.\<close>

definition opened_as_zip :: "string \<Rightarrow> bool" where
  "opened_as_zip zname =
     (\<not> zip_is_dir zname \<and> classify_spec (os_path_basename zname) [] = None
      \<and> is_zip_name (os_path_basename zname))"

text \<open>A file on disk the walker tries to open: not classified, named \<open>*.zip\<close>.\<close>

definition opened_on_disk :: "string \<Rightarrow> bool" where
  "opened_on_disk file = (classify_spec file [] = None \<and> is_zip_name file)"




text \<open>A file \<open>leaf\<close> wrapped in archives named \<open>names\<close>, outermost first.\<close>

fun nest :: "string list \<Rightarrow> string \<Rightarrow> blob \<Rightarrow> (string \<times> blob) list" where
  "nest [] leaf content = [(leaf, content)]"
| "nest (n # ns) leaf content = [(n, Zip (nest ns leaf content))]"

definition nested_address :: "string \<Rightarrow> string list \<Rightarrow> string" where
  "nested_address base segments = base @ concat (map (\<lambda>s. '':'' @ s) segments)"

section \<open>The HTTP find endpoint\<close>

datatype detail =
    Invalid_path string
  | Invalid_output_dir string
  | Unexpected py_error

datatype http_error = HTTPException nat detail

record find_response =
  search_path_echo :: string
  resp_files_found :: nat
  resp_files :: "pydict list"

text \<open>\<open>find_endpoint(request)\<close> with \<open>request.path = search_path\<close>.\<close>

definition find_endpoint :: "filesystem \<Rightarrow> string \<Rightarrow> http_error + find_response" where
  "find_endpoint fs search_path =
     (if \<not> os_path_isabs search_path \<or> \<not> os_path_isdir fs search_path
      then Inl (HTTPException 400 (Invalid_path search_path))
      else
        (case find_files fs search_path of
           Inl e \<Rightarrow> Inl (HTTPException 500 (Unexpected e))
         | Inr found \<Rightarrow>
             Inr \<lparr>search_path_echo = search_path, resp_files_found = length found,
                  resp_files = found\<rparr>))"

text \<open>A disk with nothing on it, and one with an empty directory \<open>/data\<close>.\<close>

definition empty_disk :: filesystem where
  "empty_disk = (\<lambda>p. None)"

definition empty_dir_disk :: filesystem where
  "empty_dir_disk = (\<lambda>p. if p = ''/data'' then Some (Dir []) else None)"

section \<open>Path Resolver\<close>

text \<open>\<open>xs[i]\<close> for \<open>i \<ge> 0\<close>.\<close>

definition py_index :: "'a list \<Rightarrow> nat \<Rightarrow> py_error + 'a" where
  "py_index xs i = (if i < length xs then Inr (xs ! i) else Inl IndexError)"

text \<open>The test \<open>len(parts) > 1 and len(parts[0]) == 1 and parts[1].startswith('/')\<close>,
  evaluated left to right.\<close>

definition has_drive_letter :: "string list \<Rightarrow> py_error + bool" where
  "has_drive_letter parts =
     (if \<not> 1 < length parts then Inr False
      else
        (case py_index parts 0 of
           Inl e \<Rightarrow> Inl e
         | Inr p0 \<Rightarrow>
             if length p0 \<noteq> 1 then Inr False
             else (case py_index parts 1 of
                     Inl e \<Rightarrow> Inl e
                   | Inr p1 \<Rightarrow> Inr (startswith p1 ''/''))))"

text \<open>\<open>_parse_zip_path(full_path)\<close>; \<open>os_sep\<close> is \<open>os.sep\<close>, a slash on POSIX and a
  backslash (character 92) on Windows.\<close>

definition parse_zip_path :: "char \<Rightarrow> string \<Rightarrow> py_error + (string \<times> string list)" where
  "parse_zip_path os_sep full_path =
     (let parts = str_split CHR '':'' (str_replace (CHR 0x5C) CHR ''/'' full_path)
      in case has_drive_letter parts of
           Inl e \<Rightarrow> Inl e
         | Inr True \<Rightarrow>
             (case py_index parts 0 of
                Inl e \<Rightarrow> Inl e
              | Inr drive \<Rightarrow>
                  (let rest_parts =
                         str_split CHR '':''
                           (lstrip CHR ''/'' (str_join CHR '':'' (drop 1 parts)))
                   in case py_index rest_parts 0 of
                        Inl e \<Rightarrow> Inl e
                      | Inr r0 \<Rightarrow>
                          Inr (str_replace CHR ''/'' os_sep (drive @ '':/'' @ r0),
                               drop 1 rest_parts)))
         | Inr False \<Rightarrow>
             (case py_index parts 0 of
                Inl e \<Rightarrow> Inl e
              | Inr p0 \<Rightarrow> Inr (str_replace CHR ''/'' os_sep p0, drop 1 parts)))"

section \<open>Extractor\<close>

text \<open>\<open>ZipFile.read(name)\<close>: the last entry of that name, \<open>KeyError\<close> when there is
  none.\<close>

definition zf_read :: "(string \<times> blob) list \<Rightarrow> string \<Rightarrow> py_error + blob" where
  "zf_read entries name =
     (case map_of (rev entries) name of
        None \<Rightarrow> Inl (KeyError name)
      | Some data \<Rightarrow> Inr data)"

text \<open>\<open>_extract_from_zip(zip_path, inner_path_parts)\<close> on the bytes found at
  \<open>zip_path\<close> (a file's content or an in-memory buffer). The archive is opened first,
  then the length test, then \<open>inner_path_parts[0]\<close>. Both handlers print and re-raise;
  the printing is left out.\<close>

fun extract_from_zip :: "blob \<Rightarrow> string list \<Rightarrow> py_error + blob" where
  "extract_from_zip (Data b) inner_path_parts = Inl BadZipFile"
| "extract_from_zip (Zip entries) [] = Inl IndexError"
| "extract_from_zip (Zip entries) [p] = zf_read entries p"
| "extract_from_zip (Zip entries) (p # q # ps) =
     (case zf_read entries p of
        Inl e \<Rightarrow> Inl e
      | Inr nested_zip_data \<Rightarrow> extract_from_zip nested_zip_data (q # ps))"

section \<open>Packager\<close>

datatype log_entry =
    Log_dir_created string
  | Log_processing string
  | Log_added string
  | Log_missing_file string
  | Log_extracted string
  | Log_missing_zip string
  | Log_error string py_error
  | Log_package_created string
  | Log_deleting
  | Log_deleted string
  | Log_delete_error string py_error

text \<open>The calls that touch the disk or the output archive, in the order made.\<close>

datatype event =
    Ev_makedirs string
  | Ev_open_output string
  | Ev_read_file string
  | Ev_extract string "string list"
  | Ev_writestr string blob
  | Ev_close_output string
  | Ev_remove string
  | Ev_write_log string

record package_state =
  disk :: filesystem
  log_lines :: "log_entry list"
  trace :: "event list"
  final_zip :: "(string \<times> blob) list"

definition log_action :: "bool \<Rightarrow> log_entry \<Rightarrow> package_state \<Rightarrow> package_state" where
  "log_action logging message st =
     (if logging then st\<lparr>log_lines := log_lines st @ [message]\<rparr> else st)"

definition emit :: "event \<Rightarrow> package_state \<Rightarrow> package_state" where
  "emit ev st = st\<lparr>trace := trace st @ [ev]\<rparr>"

text \<open>\<open>os.path.dirname\<close> of \<open>posixpath\<close>.\<close>

definition os_path_dirname :: "string \<Rightarrow> string" where
  "os_path_dirname p =
     (let head = rev (dropWhile (\<lambda>c. c \<noteq> CHR ''/'') (rev p))
      in if head \<noteq> [] \<and> \<not> list_all (\<lambda>c. c = CHR ''/'') head
         then rev (dropWhile (\<lambda>c. c = CHR ''/'') (rev head))
         else head)"

text \<open>\<open>open(path, 'rb').read()\<close> and \<open>_extract_from_zip(path, parts)\<close> on a path.\<close>

definition read_file :: "filesystem \<Rightarrow> string \<Rightarrow> py_error + blob" where
  "read_file fs p =
     (case fs p of
        None \<Rightarrow> Inl (FileNotFoundError p)
      | Some (Dir _) \<Rightarrow> Inl (IsADirectoryError p)
      | Some (File data) \<Rightarrow> Inr data)"

definition extract_from_path :: "filesystem \<Rightarrow> string \<Rightarrow> string list \<Rightarrow> py_error + blob" where
  "extract_from_path fs p inner_path_parts =
     (case read_file fs p of
        Inl e \<Rightarrow> Inl e
      | Inr data \<Rightarrow> extract_from_zip data inner_path_parts)"

definition writestr :: "string \<Rightarrow> blob \<Rightarrow> package_state \<Rightarrow> package_state" where
  "writestr name data st =
     emit (Ev_writestr name data) (st\<lparr>final_zip := final_zip st @ [(name, data)]\<rparr>)"

text \<open>The body of the \<open>try\<close> for one record: the state it leaves and the exception it
  raised, if any.\<close>

definition add_to_package ::
  "char \<Rightarrow> bool \<Rightarrow> string \<Rightarrow> string \<Rightarrow> package_state \<Rightarrow> package_state \<times> py_error option" where
  "add_to_package os_sep logging full_path filename st =
     (case parse_zip_path os_sep full_path of
        Inl e \<Rightarrow> (st, Some e)
      | Inr (base_path, inner_paths) \<Rightarrow>
          if inner_paths = [] then
            (if os_path_exists (disk st) base_path then
               (case read_file (disk st) base_path of
                  Inl e \<Rightarrow> (emit (Ev_read_file base_path) st, Some e)
                | Inr data \<Rightarrow>
                    (log_action logging (Log_added filename)
                       (writestr filename data (emit (Ev_read_file base_path) st)),
                     None))
             else (log_action logging (Log_missing_file base_path) st, None))
          else
            (if os_path_exists (disk st) base_path then
               (case extract_from_path (disk st) base_path inner_paths of
                  Inl e \<Rightarrow> (emit (Ev_extract base_path inner_paths) st, Some e)
                | Inr file_data \<Rightarrow>
                    (log_action logging (Log_extracted filename)
                       (writestr filename file_data
                          (emit (Ev_extract base_path inner_paths) st)),
                     None))
             else (log_action logging (Log_missing_zip base_path) st, None)))"

text \<open>One turn of the loop over \<open>files_to_package\<close>. The two dictionary reads stand
  before the \<open>try\<close>: a missing key leaves the function.\<close>

definition package_file ::
  "char \<Rightarrow> bool \<Rightarrow> pydict \<Rightarrow> package_state \<Rightarrow> package_state \<times> py_error option" where
  "package_file os_sep logging file_info st =
     (case dict_item file_info ''path'' of
        Inl e \<Rightarrow> (st, Some e)
      | Inr full_path \<Rightarrow>
          (case dict_item file_info ''filename'' of
             Inl e \<Rightarrow> (st, Some e)
           | Inr filename \<Rightarrow>
               (case add_to_package os_sep logging full_path filename
                       (log_action logging (Log_processing filename) st) of
                  (st', None) \<Rightarrow> (st', None)
                | (st', Some e) \<Rightarrow> (log_action logging (Log_error full_path e) st', None))))"

fun package_files ::
  "char \<Rightarrow> bool \<Rightarrow> pydict list \<Rightarrow> package_state \<Rightarrow> package_state \<times> py_error option" where
  "package_files os_sep logging [] st = (st, None)"
| "package_files os_sep logging (file_info # rest) st =
     (case package_file os_sep logging file_info st of
        (st', Some e) \<Rightarrow> (st', Some e)
      | (st', None) \<Rightarrow> package_files os_sep logging rest st')"

text \<open>\<open>os.remove\<close> on each deletion target; \<open>OSError\<close> is caught and logged.\<close>

definition remove_file :: "bool \<Rightarrow> string \<Rightarrow> package_state \<Rightarrow> package_state" where
  "remove_file logging file_path st =
     (case disk st file_path of
        Some (File _) \<Rightarrow>
          log_action logging (Log_deleted file_path)
            (emit (Ev_remove file_path) (st\<lparr>disk := (disk st)(file_path := None)\<rparr>))
      | Some (Dir _) \<Rightarrow>
          log_action logging (Log_delete_error file_path (IsADirectoryError file_path))
            (emit (Ev_remove file_path) st)
      | None \<Rightarrow>
          log_action logging (Log_delete_error file_path (FileNotFoundError file_path))
            (emit (Ev_remove file_path) st))"

fun remove_files :: "bool \<Rightarrow> string list \<Rightarrow> package_state \<Rightarrow> package_state" where
  "remove_files logging [] st = st"
| "remove_files logging (file_path # rest) st =
     remove_files logging rest (remove_file logging file_path st)"

text \<open>Opening the output archive for writing truncates the file; a directory at that
  path makes \<open>open\<close> raise. Closing writes the entries out. In between the model keeps the
  empty file at the path.\<close>

definition open_output :: "string \<Rightarrow> package_state \<Rightarrow> py_error + package_state" where
  "open_output output_zip_path st =
     (case disk st output_zip_path of
        Some (Dir _) \<Rightarrow> Inl (IsADirectoryError output_zip_path)
      | _ \<Rightarrow> Inr (emit (Ev_open_output output_zip_path)
                   (st\<lparr>disk := (disk st)(output_zip_path \<mapsto> File (Data [])),
                       final_zip := []\<rparr>)))"

definition close_output :: "string \<Rightarrow> package_state \<Rightarrow> package_state" where
  "close_output output_zip_path st =
     emit (Ev_close_output output_zip_path)
       (st\<lparr>disk := (disk st)(output_zip_path \<mapsto> File (Zip (final_zip st)))\<rparr>)"

text \<open>Writing the log file; \<open>render\<close> gives its bytes (header with the clock's time,
  then the lines). \<open>IOError\<close> is caught.\<close>

definition write_log ::
  "(log_entry list \<Rightarrow> blob) \<Rightarrow> string \<Rightarrow> package_state \<Rightarrow> package_state" where
  "write_log render log_filepath st =
     (case disk st log_filepath of
        Some (Dir _) \<Rightarrow> emit (Ev_write_log log_filepath) st
      | _ \<Rightarrow> emit (Ev_write_log log_filepath)
               (st\<lparr>disk := (disk st)(log_filepath \<mapsto> File (render (log_lines st)))\<rparr>))"

definition truthy :: "string option \<Rightarrow> bool" where
  "truthy s = (case s of None \<Rightarrow> False | Some v \<Rightarrow> v \<noteq> [])"

text \<open>The head of \<open>create_zip_package\<close>: an output directory that does not exist is
  created.\<close>

definition prepare_output_dir :: "bool \<Rightarrow> string \<Rightarrow> filesystem \<Rightarrow> package_state" where
  "prepare_output_dir logging output_zip_path fs =
     (let output_dir = os_path_dirname output_zip_path
      in if output_dir \<noteq> [] \<and> \<not> os_path_exists fs output_dir
         then log_action logging (Log_dir_created output_dir)
                (emit (Ev_makedirs output_dir)
                   \<lparr>disk = fs(output_dir \<mapsto> Dir []), log_lines = [], trace = [],
                    final_zip = []\<rparr>)
         else \<lparr>disk = fs, log_lines = [], trace = [], final_zip = []\<rparr>)"

text \<open>The tail of \<open>create_zip_package\<close>, after the \<open>with\<close> block has closed the
  archive: the success line, the deletions, the log file.\<close>

definition finish_package ::
  "(log_entry list \<Rightarrow> blob) \<Rightarrow> bool \<Rightarrow> string list \<Rightarrow> string \<Rightarrow> string option
     \<Rightarrow> package_state \<Rightarrow> package_state" where
  "finish_package render logging physical_files_to_delete output_zip_path log_filepath st =
     (let st4 = log_action logging (Log_package_created output_zip_path) st;
          st5 = (if physical_files_to_delete \<noteq> []
                 then remove_files logging physical_files_to_delete
                        (log_action logging Log_deleting st4)
                 else st4)
      in case log_filepath of
           None \<Rightarrow> st5
         | Some p \<Rightarrow> if p \<noteq> [] then write_log render p st5 else st5)"

text \<open>\<open>create_zip_package(files_to_package, physical_files_to_delete, output_zip_path,
  log_filepath)\<close>. The deletion targets are a Python set, given here in the order the
  loop meets them. The result is the final state and the exception that left the
  function, if any; an exception inside the \<open>with\<close> block still closes the archive.\<close>

definition create_zip_package ::
  "char \<Rightarrow> (log_entry list \<Rightarrow> blob) \<Rightarrow> pydict list \<Rightarrow> string list \<Rightarrow> string
     \<Rightarrow> string option \<Rightarrow> filesystem \<Rightarrow> package_state \<times> py_error option" where
  "create_zip_package os_sep render files_to_package physical_files_to_delete
       output_zip_path log_filepath fs =
     (let logging = truthy log_filepath;
          st1 = prepare_output_dir logging output_zip_path fs
      in case open_output output_zip_path st1 of
           Inl e \<Rightarrow> (st1, Some e)
         | Inr st2 \<Rightarrow>
             (case package_files os_sep logging files_to_package st2 of
                (st3, Some e) \<Rightarrow> (close_output output_zip_path st3, Some e)
              | (st3, None) \<Rightarrow>
                  (finish_package render logging physical_files_to_delete output_zip_path
                     log_filepath (close_output output_zip_path st3),
                   None)))"

text \<open>What the resolver's contract says, written directly: normalise the separators,
  cut at the colons, keep a drive letter with the physical path.\<close>

definition resolve_spec :: "char \<Rightarrow> string \<Rightarrow> string \<times> string list" where
  "resolve_spec os_sep address =
     (let parts = str_split CHR '':'' (str_replace (CHR 0x5C) CHR ''/'' address)
      in if 1 < length parts \<and> length (hd parts) = 1 \<and> startswith (parts ! 1) ''/''
         then (str_replace CHR ''/'' os_sep
                 (hd parts @ '':/'' @ lstrip CHR ''/'' (parts ! 1)),
               drop 2 parts)
         else (str_replace CHR ''/'' os_sep (hd parts), drop 1 parts))"

definition backslash_name :: string where
  "backslash_name = [CHR ''a'', CHR 0x5C, CHR ''b'']"

definition windows_address :: string where
  "windows_address =
     [CHR ''C'', CHR '':'', CHR 0x5C] @ ''data'' @ [CHR 0x5C] @ ''r.zip:in/a.zip:01-F001-7.xml''"

definition windows_base :: string where
  "windows_base = [CHR ''C'', CHR '':'', CHR 0x5C] @ ''data'' @ [CHR 0x5C] @ ''r.zip''"

text \<open>The entry a chain of segment names leads to, following the last entry of each
  name.\<close>

fun entry_at :: "blob \<Rightarrow> string list \<Rightarrow> blob option" where
  "entry_at data [] = Some data"
| "entry_at (Data b) (s # segments) = None"
| "entry_at (Zip entries) (s # segments) =
     (case map_of (rev entries) s of
        None \<Rightarrow> None
      | Some nested \<Rightarrow> entry_at nested segments)"

text \<open>The stage of the packager an event belongs to.\<close>

fun phase :: "event \<Rightarrow> nat" where
  "phase (Ev_makedirs _) = 0"
| "phase (Ev_open_output _) = 1"
| "phase (Ev_read_file _) = 2"
| "phase (Ev_extract _ _) = 2"
| "phase (Ev_writestr _ _) = 2"
| "phase (Ev_close_output _) = 3"
| "phase (Ev_remove _) = 4"
| "phase (Ev_write_log _) = 5"

fun is_remove :: "event \<Rightarrow> bool" where
  "is_remove (Ev_remove _) = True"
| "is_remove _ = False"

fun extract_call_ok :: "event \<Rightarrow> bool" where
  "extract_call_ok (Ev_extract _ segments) = (segments \<noteq> [])"
| "extract_call_ok _ = True"

fun no_index_error :: "log_entry \<Rightarrow> bool" where
  "no_index_error (Log_error _ e) = (e \<noteq> IndexError)"
| "no_index_error _ = True"

text \<open>What one turn of the packaging loop may do to the state: the disk stays, the
  trace grows by reads, extractions with segments and writes, the archive and the log
  grow.\<close>

definition loop_step :: "package_state \<Rightarrow> package_state \<Rightarrow> bool" where
  "loop_step st st' =
     (disk st' = disk st
      \<and> (\<exists>evs. trace st' = trace st @ evs
                \<and> list_all (\<lambda>e. phase e = 2 \<and> extract_call_ok e) evs)
      \<and> (\<exists>es. final_zip st' = final_zip st @ es)
      \<and> (\<exists>ls. log_lines st' = log_lines st @ ls \<and> list_all no_index_error ls))"

text \<open>The original bytes of a record's source: the physical file itself when the address
  has no nesting segment, what the extractor finds through the nested archives
  otherwise.\<close>

definition source_bytes :: "filesystem \<Rightarrow> string \<Rightarrow> string list \<Rightarrow> py_error + blob" where
  "source_bytes fs base inner =
     (if inner = [] then read_file fs base else extract_from_path fs base inner)"

section \<open>Example trees\<close>

text \<open>A directory \<open>/data\<close> holding an invoice and an archive that holds a file of the
  same bare name in a subdirectory.\<close>

definition example_listing :: "(string \<times> fsnode) list" where
  "example_listing =
     [(''01-F001-7.xml'', File (Data ''A'')),
      (''reports.zip'', File (Zip [(''sub/01-F001-7.xml'', Data ''B''),
                                  (''notes.txt'', Data ''n'')]))]"

definition example_fs :: filesystem where
  "example_fs = (\<lambda>p. if p = ''/data'' then Some (Dir example_listing) else None)"

text \<open>The record the classifier gives the invoice \<open>01-F001-7.xml\<close> found at an
  address.\<close>

definition example_invoice :: "string \<Rightarrow> pydict" where
  "example_invoice address =
     [(''classification'', ''factura''), (''filename'', ''01-F001-7.xml''),
      (''path'', address), (''tipo_doc'', ''01''), (''serie'', ''F001''),
      (''correlativo'', ''7''), (''ext'', ''xml'')]"



text \<open>A disk for the packager: an invoice on disk, and an archive \<open>/data/r.zip\<close>
  holding documents one, two and three archives deep; the directory \<open>/out\<close> exists.\<close>

definition package_archive :: blob where
  "package_archive =
     Zip [(''07-C001-1.xml'', Data ''one''),
          (''in/a.zip'',
             Zip [(''08-D001-1.xml'', Data ''two''),
                  (''b.zip'', Zip [(''03-B001-2.xml'', Data ''three'')])])]"

definition package_disk :: filesystem where
  "package_disk =
     (\<lambda>p. if p = ''/data/01-F001-7.xml'' then Some (File (Data ''zero''))
          else if p = ''/data/r.zip'' then Some (File package_archive)
          else if p = ''/out'' then Some (Dir [])
          else None)"

definition package_start :: package_state where
  "package_start = \<lparr>disk = package_disk, log_lines = [], trace = [], final_zip = []\<rparr>"

definition package_record :: "string \<Rightarrow> string \<Rightarrow> string \<Rightarrow> pydict" where
  "package_record doc_type name address =
     [(''classification'', doc_type), (''filename'', name), (''path'', address),
      (''status'', ''UNICO'')]"

definition package_records :: "pydict list" where
  "package_records =
     [package_record ''factura'' ''01-F001-7.xml'' ''/data/01-F001-7.xml'',
      package_record ''nota_credito'' ''07-C001-1.xml'' ''/data/r.zip:07-C001-1.xml'',
      package_record ''nota_debito'' ''08-D001-1.xml'' ''/data/r.zip:in/a.zip:08-D001-1.xml'',
      package_record ''boleta'' ''03-B001-2.xml''
        ''/data/r.zip:in/a.zip:b.zip:03-B001-2.xml'']"

definition example_render :: "log_entry list \<Rightarrow> blob" where
  "example_render ls = Data ''log''"

definition example_package :: "package_state \<times> py_error option" where
  "example_package =
     create_zip_package CHR ''/'' example_render package_records
       [''/data/01-F001-7.xml'', ''/data/r.zip''] ''/out/c.zip'' (Some ''logs/p.txt'')
       package_disk"


section \<open>Proofs: the classifier\<close>

lemma lower_char_idem [simp]: "lower_char (lower_char c) = lower_char c"
  by (simp add: lower_char_def is_upper_def)

lemma in_class_lower [simp]: "in_class k (lower_char c) = in_class k c"
  by (cases k) (auto simp: lower_char_def is_upper_def is_lower_def is_digit_def)

lemma lower_char_newline [simp]: "(lower_char c = CHR 0x0A) = (c = CHR 0x0A)"
proof -
  have "(of_char (lower_char c) = (10::nat)) = (of_char c = (10::nat))"
    by (auto simp: lower_char_def is_upper_def)
  moreover have "of_char (CHR 0x0A) = (10::nat)" by simp
  ultimately show ?thesis by (metis of_char_eq_iff)
qed

lemma str_lower_idem [simp]: "str_lower (str_lower s) = str_lower s"
  by (simp add: str_lower_def)

lemma str_lower_take: "str_lower (take n s) = take n (str_lower s)"
  by (simp add: str_lower_def take_map)

lemma str_lower_drop: "str_lower (drop n s) = drop n (str_lower s)"
  by (simp add: str_lower_def drop_map)

lemma length_str_lower [simp]: "length (str_lower s) = length s"
  by (simp add: str_lower_def)

lemma lit_matches_lower:
  "lit_matches l (str_lower s) = map lower_split (lit_matches l s)"
  by (simp add: lit_matches_def lower_split_def str_lower_take str_lower_drop flip: str_lower_take)

lemma takeWhile_class_lower:
  "length (takeWhile (in_class c) (str_lower s)) = length (takeWhile (in_class c) s)"
  by (simp add: str_lower_def takeWhile_map comp_def)

lemma rep_matches_lower:
  "rep_matches c lo hi (str_lower s) = map lower_split (rep_matches c lo hi s)"
  by (simp add: rep_matches_def takeWhile_class_lower lower_split_def Let_def
      str_lower_take str_lower_drop)

lemma atom_matches_lower:
  "atom_matches a (str_lower s) = map lower_split (atom_matches a s)"
proof (cases a)
  case (Alt ls)
  then show ?thesis
    by (simp add: lit_matches_lower map_concat comp_def)
qed (simp_all add: lit_matches_lower rep_matches_lower)

lemma seq_matches_lower:
  "seq_matches as (str_lower s) = map str_lower (seq_matches as s)"
proof (induction as arbitrary: s)
  case Nil
  then show ?case by simp
next
  case (Cons a as)
  show ?case
    by (simp add: atom_matches_lower map_concat comp_def lower_split_def
        case_prod_unfold Cons.IH)
qed

lemma toks_matches_lower:
  "toks_matches ts (str_lower s) = map lower_result (toks_matches ts s)"
proof (induction ts arbitrary: s)
  case Nil
  then show ?case by (simp add: lower_result_def)
next
  case (Cons t ts)
  show ?case
  proof (cases t)
    case (Plain a)
    then show ?thesis
      by (simp add: atom_matches_lower map_concat comp_def lower_split_def
          case_prod_unfold Cons.IH)
  next
    case (Group a)
    then show ?thesis
      by (simp add: atom_matches_lower map_concat comp_def lower_split_def
          lower_result_def case_prod_unfold Cons.IH)
  next
    case (OptSeq as)
    then show ?thesis
      by (simp add: seq_matches_lower map_concat comp_def Cons.IH)
  qed
qed

lemma at_end_lower [simp]: "at_end (str_lower r) = at_end r"
  by (cases r) (auto simp: at_end_def str_lower_def)

lemma re_match_lower:
  "re_match p (str_lower s) = map_option (map str_lower) (re_match p s)"
proof -
  have "filter (\<lambda>(gs, r). at_end r) (map lower_result xs)
        = map lower_result (filter (\<lambda>(gs, r). at_end r) xs)" for xs
    by (induction xs) (auto simp: lower_result_def)
  then show ?thesis
    by (auto simp: re_match_def toks_matches_lower lower_result_def split: list.splits)
qed

lemma re_match_case_insensitive:
  assumes "str_lower f = str_lower g"
  shows "(re_match p f = None) = (re_match p g = None)"
proof -
  have "(re_match p f = None) = (re_match p (str_lower f) = None)"
    by (simp add: re_match_lower)
  also have "\<dots> = (re_match p g = None)"
    by (simp add: assms re_match_lower)
  finally show ?thesis .
qed

lemma toks_matches_groups:
  "(gs, r) \<in> set (toks_matches ts s) \<Longrightarrow> length gs = n_groups ts"
proof (induction ts arbitrary: s gs r)
  case Nil
  then show ?case by simp
next
  case (Cons t ts)
  then show ?case by (cases t) auto
qed

lemma re_match_groups: "re_match p s = Some gs \<Longrightarrow> length gs = n_groups p"
proof -
  assume a: "re_match p s = Some gs"
  then obtain r rest where "filter (\<lambda>(gs, r). at_end r) (toks_matches p s) = (gs, r) # rest"
    by (auto simp: re_match_def split: list.splits)
  then have "(gs, r) \<in> set (filter (\<lambda>(gs, r). at_end r) (toks_matches p s))"
    by simp
  then have "(gs, r) \<in> set (toks_matches p s)" by simp
  then show ?thesis by (rule toks_matches_groups)
qed

lemma dict_set_new: "k \<notin> fst ` set d \<Longrightarrow> dict_set d k v = d @ [(k, v)]"
  by (induction d) auto

lemma assign_fields_zip:
  "i + length flds \<le> length groups \<Longrightarrow> distinct flds \<Longrightarrow>
   set flds \<inter> fst ` set file_info = {} \<Longrightarrow>
   assign_fields file_info i flds groups
     = Inr (file_info @ zip flds (drop i groups))"
proof (induction flds arbitrary: file_info i)
  case Nil
  then show ?case by simp
next
  case (Cons fld flds)
  from Cons.prems have lt: "i < length groups" by simp
  from Cons.prems have new: "fld \<notin> fst ` set file_info" by auto
  have step: "dict_set file_info fld (groups ! i) = file_info @ [(fld, groups ! i)]"
    using new by (rule dict_set_new)
  have "assign_fields (file_info @ [(fld, groups ! i)]) (Suc i) flds groups
        = Inr ((file_info @ [(fld, groups ! i)]) @ zip flds (drop (Suc i) groups))"
    using Cons.prems by (intro Cons.IH) auto
  moreover have "drop i groups = groups ! i # drop (Suc i) groups"
    using lt by (simp add: Cons_nth_drop_Suc)
  ultimately show ?case using lt step by simp
qed

lemma registry_well_formed: "list_all well_formed_entry PATRONES_ESTRUCTURADOS"
  by (simp add: PATRONES_ESTRUCTURADOS_def well_formed_entry_def base_keys_def
      comprobante_def constancia_sunat_def optional_ruc_prefix_def)

lemma analyze_in_spec:
  "list_all well_formed_entry reg \<Longrightarrow>
   analyze_in reg filename path =
     Inr (case find (\<lambda>(doc_type, pattern, flds). re_match pattern filename \<noteq> None) reg of
        None \<Rightarrow> None
      | Some (doc_type, pattern, flds) \<Rightarrow>
          Some ([(''classification'', doc_type), (''filename'', filename), (''path'', path)]
                @ zip flds (the (re_match pattern filename))))"
proof (induction reg)
  case Nil
  then show ?case by simp
next
  case (Cons e reg)
  obtain doc_type pattern flds where e: "e = (doc_type, pattern, flds)"
    by (cases e) auto
  show ?case
  proof (cases "re_match pattern filename")
    case None
    then show ?thesis using Cons e by simp
  next
    case (Some groups)
    from Cons.prems e have wf: "n_groups pattern = length flds" "distinct flds"
      "list_all (\<lambda>k. k \<notin> set flds) base_keys"
      by (simp_all add: well_formed_entry_def)
    from Some have "length groups = length flds"
      using wf(1) re_match_groups by fastforce
    moreover have "set flds \<inter> fst ` set [(''classification'', doc_type),
        (''filename'', filename), (''path'', path)] = {}"
      using wf(3) by (auto simp: base_keys_def)
    ultimately have "assign_fields [(''classification'', doc_type), (''filename'', filename),
        (''path'', path)] 0 flds groups
      = Inr ([(''classification'', doc_type), (''filename'', filename), (''path'', path)]
             @ zip flds (drop 0 groups))"
      using wf(2) by (intro assign_fields_zip) auto
    then show ?thesis using Some e by simp
  qed
qed

lemma analyze_filename_spec:
  "analyze_filename filename path = Inr (classify_spec filename path)"
  unfolding analyze_filename_def classify_spec_def
  by (rule analyze_in_spec [OF registry_well_formed])

lemma find_case_insensitive:
  assumes "str_lower f = str_lower g"
  shows "find (\<lambda>(doc_type, pattern, flds). re_match pattern f \<noteq> None) reg
       = find (\<lambda>(doc_type, pattern, flds). re_match pattern g \<noteq> None) reg"
  by (induction reg) (auto simp: re_match_case_insensitive [OF assms])

lemma classification_of_spec:
  "classification_of (Inr (classify_spec f p))
     = map_option fst (find (\<lambda>(doc_type, pattern, flds). re_match pattern f \<noteq> None)
                            PATRONES_ESTRUCTURADOS)"
  unfolding classify_spec_def classification_of_def dict_get_def
  by (cases "find (\<lambda>(doc_type, pattern, flds). re_match pattern f \<noteq> None)
                            PATRONES_ESTRUCTURADOS") auto

lemma classification_case_insensitive:
  assumes "str_lower f = str_lower g"
  shows "classification_of (analyze_filename f p) = classification_of (analyze_filename g q)"
  unfolding analyze_filename_spec classification_of_spec
  by (simp only: find_case_insensitive [OF assms])

text \<open>
  Claim C9. For every bare filename, \<open>_analyze_filename\<close> walks the Pattern Registry in
  its declaration order and answers with the record of the first pattern that matches:
  the three base keys followed by that pattern's field names paired positionally with the
  captured groups (\<open>classify_spec\<close>). It never raises: when no pattern matches the
  answer is \<open>None\<close>. Matching ignores letter case: two names that agree after
  lower-casing get the same classification.
\<close>

theorem classify_first_match_wins:
  "analyze_filename filename path = Inr (classify_spec filename path) \<and>
   (str_lower other = str_lower filename \<longrightarrow>
      classification_of (analyze_filename other path')
        = classification_of (analyze_filename filename path))"
  using analyze_filename_spec classification_case_insensitive by blast

theorem classify_first_match_wins_witness:
  "analyze_filename ''20123456789-01-F001-123.xml'' ''/d/20123456789-01-F001-123.xml'' =
     Inr (Some [(''classification'', ''factura''),
                (''filename'', ''20123456789-01-F001-123.xml''),
                (''path'', ''/d/20123456789-01-F001-123.xml''),
                (''tipo_doc'', ''01''), (''serie'', ''F001''), (''correlativo'', ''123''),
                (''ext'', ''xml'')]) \<and>
   str_lower ''20123456789-01-f001-123.XML'' = str_lower ''20123456789-01-F001-123.xml'' \<and>
   classification_of (analyze_filename ''20123456789-01-f001-123.XML'' ''/e/x'') = Some ''factura'' \<and>
   analyze_filename ''notes.txt'' ''/d/notes.txt'' = Inr None"
proof -
  have l: "str_lower ''20123456789-01-f001-123.XML'' = str_lower ''20123456789-01-F001-123.xml''"
    by code_simp
  have c: "classify_spec ''20123456789-01-F001-123.xml'' ''/d/20123456789-01-F001-123.xml'' =
     Some [(''classification'', ''factura''),
                (''filename'', ''20123456789-01-F001-123.xml''),
                (''path'', ''/d/20123456789-01-F001-123.xml''),
                (''tipo_doc'', ''01''), (''serie'', ''F001''), (''correlativo'', ''123''),
                (''ext'', ''xml'')]"
    by code_simp
  have n: "classify_spec ''notes.txt'' ''/d/notes.txt'' = None"
    by code_simp
  show ?thesis
    using classify_first_match_wins [of "''20123456789-01-F001-123.xml''"
        "''/d/20123456789-01-F001-123.xml''" "''20123456789-01-f001-123.XML''" "''/e/x''"]
      classify_first_match_wins [of "''notes.txt''" "''/d/notes.txt''" "''notes.txt''" "''/d/notes.txt''"]
      l c n
    by (simp add: classification_of_def dict_get_def)
qed

section \<open>Proofs: the walker\<close>

lemma classify_spec_None_path:
  "(classify_spec f p = None) = (classify_spec f q = None)"
  by (simp add: classify_spec_def split: option.splits)

lemma classify_spec_keys:
  assumes "classify_spec f p = Some d"
  shows "dict_get d ''filename'' = Some f" and "dict_get d ''path'' = Some p"
  using assms by (auto simp: classify_spec_def dict_get_def split: option.splits)

lemma map_of_dict_set: "map_of (dict_set d k v) = (map_of d)(k \<mapsto> v)"
  by (induction d) (auto simp: fun_eq_iff)

lemma dict_get_dict_set:
  "dict_get (dict_set d k v) k' = (if k' = k then Some v else dict_get d k')"
  by (simp add: dict_get_def map_of_dict_set)

lemma marked_record:
  assumes "classify_spec f p = Some d"
  shows "filename_of (dict_set d ''status'' v) = Some f"
    and "path_of (dict_set d ''status'' v) = Some p"
    and "status_of (dict_set d ''status'' v) = Some v"
  using classify_spec_keys [OF assms]
  by (simp_all add: filename_of_def path_of_def status_of_def dict_get_dict_set)

text \<open>The loops with the classifier replaced by its specification.\<close>

lemma analyze_zip_Nil: "analyze_zip_recursively [] cur st = Inr st"
  by simp

lemma analyze_zip_dir:
  "zip_is_dir zname \<Longrightarrow>
   analyze_zip_recursively ((zname, content) # rest) cur st
     = analyze_zip_recursively rest cur st"
  by simp

lemma analyze_zip_classified:
  "\<not> zip_is_dir zname \<Longrightarrow>
   classify_spec (os_path_basename zname) (cur @ '':'' @ zname) = Some d \<Longrightarrow>
   analyze_zip_recursively ((zname, content) # rest) cur st
     = analyze_zip_recursively rest cur (mark_status d (os_path_basename zname) st)"
  by (simp add: analyze_filename_spec)

lemma analyze_zip_plain:
  "\<not> zip_is_dir zname \<Longrightarrow>
   classify_spec (os_path_basename zname) (cur @ '':'' @ zname) = None \<Longrightarrow>
   \<not> is_zip_name (os_path_basename zname) \<Longrightarrow>
   analyze_zip_recursively ((zname, content) # rest) cur st
     = analyze_zip_recursively rest cur st"
  by (simp add: analyze_filename_spec)

lemma analyze_zip_nested:
  "\<not> zip_is_dir zname \<Longrightarrow>
   classify_spec (os_path_basename zname) (cur @ '':'' @ zname) = None \<Longrightarrow>
   is_zip_name (os_path_basename zname) \<Longrightarrow>
   analyze_zip_recursively ((zname, Zip nested) # rest) cur st
     = (case analyze_zip_recursively nested (cur @ '':'' @ zname) st of
          Inl e \<Rightarrow> Inl e
        | Inr st' \<Rightarrow> analyze_zip_recursively rest cur st')"
  by (simp add: analyze_filename_spec)

lemma analyze_zip_corrupt:
  "\<not> zip_is_dir zname \<Longrightarrow>
   classify_spec (os_path_basename zname) (cur @ '':'' @ zname) = None \<Longrightarrow>
   is_zip_name (os_path_basename zname) \<Longrightarrow>
   analyze_zip_recursively ((zname, Data b) # rest) cur st
     = analyze_zip_recursively rest cur
         (st\<lparr>printed := printed st @ [Invalid_nested_zip (cur @ '':'' @ zname)]\<rparr>)"
  by (simp add: analyze_filename_spec)

lemma scan_files_classified:
  "classify_spec file (os_path_join root file) = Some d \<Longrightarrow>
   scan_files root ((file, content) # rest) st
     = scan_files root rest (mark_status d file st)"
  by (simp add: analyze_filename_spec)

lemma scan_files_plain:
  "classify_spec file (os_path_join root file) = None \<Longrightarrow> \<not> is_zip_name file \<Longrightarrow>
   scan_files root ((file, content) # rest) st = scan_files root rest st"
  by (simp add: analyze_filename_spec)

lemma scan_files_zip:
  "classify_spec file (os_path_join root file) = None \<Longrightarrow> is_zip_name file \<Longrightarrow>
   scan_files root ((file, Zip entries) # rest) st
     = (case analyze_zip_recursively entries (os_path_join root file) st of
          Inl e \<Rightarrow> Inl e
        | Inr st' \<Rightarrow> scan_files root rest st')"
  by (simp add: analyze_filename_spec)

lemma scan_files_corrupt:
  "classify_spec file (os_path_join root file) = None \<Longrightarrow> is_zip_name file \<Longrightarrow>
   scan_files root ((file, Data b) # rest) st
     = scan_files root rest
         (st\<lparr>printed := printed st @ [Invalid_zip_on_disk (os_path_join root file)]\<rparr>)"
  by (simp add: analyze_filename_spec)

text \<open>A property of the state that classification steps and warnings keep is kept by
  the whole walk; and the walk never raises.\<close>

lemma analyze_zip_preserves:
  assumes mark: "\<forall>d f p st. P st \<longrightarrow> classify_spec f p = Some d \<longrightarrow> P (mark_status d f st)"
      and warn: "\<forall>w st. P st \<longrightarrow> P (st\<lparr>printed := printed st @ [w]\<rparr>)"
  shows "P st \<Longrightarrow> \<exists>st'. analyze_zip_recursively es cur st = Inr st' \<and> P st'"
proof (induction es cur st rule: analyze_zip_recursively.induct)
  case (1 cur st)
  then show ?case by simp
next
  case (2 zname content rest cur st)
  show ?case
  proof (cases "zip_is_dir zname")
    case True
    then show ?thesis using 2 by simp
  next
    case nd: False
    show ?thesis
    proof (cases "classify_spec (os_path_basename zname) (cur @ '':'' @ zname)")
      case (Some d)
      have "P (mark_status d (os_path_basename zname) st)"
        using "2.prems" Some by (rule mark [rule_format])
      then show ?thesis
            unfolding analyze_zip_classified [OF nd Some]
            using "2.IH"(6) [OF nd analyze_filename_spec Some]
            by simp
    next
      case None
      show ?thesis
      proof (cases "is_zip_name (os_path_basename zname)")
        case nz: False
        then show ?thesis
            unfolding analyze_zip_plain [OF nd None nz]
            using "2.IH"(5) [OF nd analyze_filename_spec None nz] "2.prems"
            by simp
      next
        case z: True
        show ?thesis
        proof (cases content)
          case (Data b)
          have "P (st\<lparr>printed := printed st @ [Invalid_nested_zip (cur @ '':'' @ zname)]\<rparr>)"
            using "2.prems" by (rule warn [rule_format])
          then show ?thesis
            unfolding Data analyze_zip_corrupt [OF nd None z]
            using "2.IH"(2) [OF nd analyze_filename_spec None z Data]
            by simp
        next
          case (Zip nested)
          obtain st1 where st1: "analyze_zip_recursively nested (cur @ '':'' @ zname) st = Inr st1"
            "P st1"
            using "2.IH"(3) [OF nd analyze_filename_spec None z Zip] "2.prems" by blast
          then show ?thesis
            unfolding Zip analyze_zip_nested [OF nd None z]
            using "2.IH"(4) [OF nd analyze_filename_spec None z Zip st1(1)]
            by simp
        qed
      qed
    qed
  qed
qed

lemma scan_files_preserves:
  assumes mark: "\<forall>d f p st. P st \<longrightarrow> classify_spec f p = Some d \<longrightarrow> P (mark_status d f st)"
      and warn: "\<forall>w st. P st \<longrightarrow> P (st\<lparr>printed := printed st @ [w]\<rparr>)"
  shows "P st \<Longrightarrow> \<exists>st'. scan_files root files st = Inr st' \<and> P st'"
proof (induction files arbitrary: st)
  case Nil
  then show ?case by simp
next
  case (Cons e rest)
  obtain fname content where e: "e = (fname, content)" by (cases e) auto
  show ?case
  proof (cases "classify_spec fname (os_path_join root fname)")
    case (Some d)
    have "P (mark_status d fname st)" using Cons.prems Some by (rule mark [rule_format])
    then show ?thesis
      unfolding e scan_files_classified [OF Some] by (rule Cons.IH)
  next
    case None
    show ?thesis
    proof (cases "is_zip_name fname")
      case nz: False
      show ?thesis
        unfolding e scan_files_plain [OF None nz] using Cons.prems by (rule Cons.IH)
    next
      case z: True
      show ?thesis
      proof (cases content)
        case (Data b)
        have "P (st\<lparr>printed := printed st @ [Invalid_zip_on_disk (os_path_join root fname)]\<rparr>)"
          using Cons.prems by (rule warn [rule_format])
        then show ?thesis
          unfolding e Data scan_files_corrupt [OF None z] by (rule Cons.IH)
      next
        case (Zip entries)
        obtain st1 where st1: "analyze_zip_recursively entries (os_path_join root fname) st = Inr st1"
          "P st1"
          using analyze_zip_preserves [of P, OF mark warn Cons.prems] by blast
        show ?thesis
          unfolding e Zip scan_files_zip [OF None z] using Cons.IH [OF st1(2)] st1(1) by simp
      qed
    qed
  qed
qed

lemma scan_walk_preserves:
  assumes mark: "\<forall>d f p st. P st \<longrightarrow> classify_spec f p = Some d \<longrightarrow> P (mark_status d f st)"
      and warn: "\<forall>w st. P st \<longrightarrow> P (st\<lparr>printed := printed st @ [w]\<rparr>)"
  shows "P st \<Longrightarrow> \<exists>st'. scan_walk dirs st = Inr st' \<and> P st'"
proof (induction dirs arbitrary: st)
  case Nil
  then show ?case by simp
next
  case (Cons e rest)
  obtain root files where e: "e = (root, files)" by (cases e) auto
  obtain st1 where st1: "scan_files root files st = Inr st1" "P st1"
    using scan_files_preserves [of P, OF mark warn Cons.prems] by blast
  show ?case using Cons.IH [OF st1(2)] st1(1) by (simp add: e)
qed

lemma find_files_run_preserves:
  assumes mark: "\<forall>d f p st. P st \<longrightarrow> classify_spec f p = Some d \<longrightarrow> P (mark_status d f st)"
      and warn: "\<forall>w st. P st \<longrightarrow> P (st\<lparr>printed := printed st @ [w]\<rparr>)"
      and init: "P initial_state"
  shows "\<exists>st. find_files_run fs search_path = Inr st \<and> P st"
proof (cases "fs search_path")
  case None
  then show ?thesis using init by (simp add: find_files_run_def)
next
  case (Some node)
  show ?thesis
  proof (cases node)
    case (File b)
    then show ?thesis using Some init by (simp add: find_files_run_def)
  next
    case (Dir entries)
    then show ?thesis
      using Some scan_walk_preserves [of P, OF mark warn init]
      by (simp add: find_files_run_def del: os_walk.simps)
  qed
qed

subsection \<open>Deduplication\<close>

lemma first_unique_append:
  "first_unique (found @ [r]) g =
     (if filename_of r = Some g
      then (case filter (\<lambda>r. filename_of r = Some g) found of
              [] \<Rightarrow> status_of r = Some ''UNICO''
            | r0 # rs \<Rightarrow> first_unique found g \<and> status_of r = Some ''DUPLICADO'')
      else first_unique found g)"
  by (auto simp: first_unique_def split: list.splits)

lemma filter_empty_iff_not_image:
  "(filter (\<lambda>r. filename_of r = Some g) found = []) = (Some g \<notin> filename_of ` set found)"
  by (force simp: filter_empty_conv image_iff)

lemma dedup_invariant_mark:
  assumes inv: "dedup_invariant st" and cl: "classify_spec f p = Some d"
  shows "dedup_invariant (mark_status d f st)"
proof (cases "f \<in> seen_filenames st")
  case True
  let ?r = "dict_set d ''status'' ''DUPLICADO''"
  have new: "mark_status d f st = st\<lparr>found_files := found_files st @ [?r]\<rparr>"
    using True by (simp add: mark_status_def)
  have name: "filename_of ?r = Some f" and stat: "status_of ?r = Some ''DUPLICADO''"
    using marked_record [OF cl] by simp_all
  from inv have ex: "Some ` seen_filenames st = filename_of ` set (found_files st)"
    and cls: "\<forall>f \<in> seen_filenames st. classify_spec f [] \<noteq> None"
    and fu: "\<And>g. first_unique (found_files st) g"
    by (simp_all add: dedup_invariant_def tracker_exact_def)
  from True ex have present: "Some f \<in> filename_of ` set (found_files st)" by blast
  have "tracker_exact (mark_status d f st)"
    using ex cls present name by (auto simp: new tracker_exact_def)
  moreover have "first_unique (found_files (mark_status d f st)) g" for g
  proof (cases "g = f")
    case True
    with present have "filter (\<lambda>r. filename_of r = Some g) (found_files st) \<noteq> []"
      by (simp add: filter_empty_iff_not_image)
    then show ?thesis
      using fu [of g] name stat True
      by (simp add: new first_unique_append split: list.splits)
  next
    case False
    then show ?thesis using fu [of g] name by (simp add: new first_unique_append)
  qed
  ultimately show ?thesis by (simp add: dedup_invariant_def)
next
  case False
  let ?r = "dict_set d ''status'' ''UNICO''"
  have new: "mark_status d f st = st\<lparr>found_files := found_files st @ [?r],
      seen_filenames := insert f (seen_filenames st)\<rparr>"
    using False by (simp add: mark_status_def)
  have name: "filename_of ?r = Some f" and stat: "status_of ?r = Some ''UNICO''"
    using marked_record [OF cl] by simp_all
  from inv have ex: "Some ` seen_filenames st = filename_of ` set (found_files st)"
    and cls: "\<forall>f \<in> seen_filenames st. classify_spec f [] \<noteq> None"
    and fu: "\<And>g. first_unique (found_files st) g"
    by (simp_all add: dedup_invariant_def tracker_exact_def)
  from False ex have absent: "Some f \<notin> filename_of ` set (found_files st)" by blast
  have "classify_spec f [] \<noteq> None"
    using cl classify_spec_None_path [of f p "[]"] by simp
  then have "tracker_exact (mark_status d f st)"
    using ex cls name by (auto simp: new tracker_exact_def)
  moreover have "first_unique (found_files (mark_status d f st)) g" for g
  proof (cases "g = f")
    case True
    with absent have "filter (\<lambda>r. filename_of r = Some g) (found_files st) = []"
      by (simp add: filter_empty_iff_not_image)
    then show ?thesis
      using name stat True by (simp add: new first_unique_append)
  next
    case False
    then show ?thesis using fu [of g] name by (simp add: new first_unique_append)
  qed
  ultimately show ?thesis by (simp add: dedup_invariant_def)
qed

lemma dedup_invariant_warn:
  "dedup_invariant st \<Longrightarrow> dedup_invariant (st\<lparr>printed := printed st @ [w]\<rparr>)"
  by (simp add: dedup_invariant_def tracker_exact_def)

lemma dedup_invariant_initial: "dedup_invariant initial_state"
  by (simp add: dedup_invariant_def tracker_exact_def initial_state_def first_unique_def)

lemma example_run:
  "find_files_run example_fs ''/data'' =
     Inr \<lparr>found_files =
            [[(''classification'', ''factura''), (''filename'', ''01-F001-7.xml''),
              (''path'', ''/data/01-F001-7.xml''), (''tipo_doc'', ''01''),
              (''serie'', ''F001''), (''correlativo'', ''7''), (''ext'', ''xml''),
              (''status'', ''UNICO'')],
             [(''classification'', ''factura''), (''filename'', ''01-F001-7.xml''),
              (''path'', ''/data/reports.zip:sub/01-F001-7.xml''), (''tipo_doc'', ''01''),
              (''serie'', ''F001''), (''correlativo'', ''7''), (''ext'', ''xml''),
              (''status'', ''DUPLICADO'')]],
          seen_filenames = {''01-F001-7.xml''},
          printed = []\<rparr>"
  by code_simp

text \<open>
  Claim C3. In one discovery run, for every bare filename, the records carrying that
  name are, in the order visited, one \<open>UNICO\<close> record followed only by \<open>DUPLICADO\<close>
  records, wherever the files sit (directory or archive, any depth). The tracker ends
  holding exactly the bare names of the records found, all of them names that classify:
  a name that fails classification is never put in it. The run itself never raises.
\<close>

theorem dedup_first_unique:
  "\<exists>st. find_files_run fs search_path = Inr st
        \<and> find_files fs search_path = Inr (found_files st)
        \<and> (\<forall>f. first_unique (found_files st) f)
        \<and> tracker_exact st"
proof -
  have "\<exists>st. find_files_run fs search_path = Inr st \<and> dedup_invariant st"
    using dedup_invariant_mark dedup_invariant_warn dedup_invariant_initial
    by (intro find_files_run_preserves) blast+
  then show ?thesis
    by (auto simp: dedup_invariant_def find_files_def)
qed

theorem dedup_first_unique_witness:
  "\<exists>st. find_files_run example_fs ''/data'' = Inr st
        \<and> map status_of (found_files st) = [Some ''UNICO'', Some ''DUPLICADO'']
        \<and> map path_of (found_files st)
            = [Some ''/data/01-F001-7.xml'', Some ''/data/reports.zip:sub/01-F001-7.xml'']
        \<and> first_unique (found_files st) ''01-F001-7.xml''
        \<and> seen_filenames st = {''01-F001-7.xml''}"
  using dedup_first_unique [of example_fs "''/data''"] example_run
  by (auto simp: status_of_def path_of_def dict_get_def)

subsection \<open>Descent into archives\<close>

lemma example_invoice_classified:
  "classify_spec ''01-F001-7.xml'' address = Some (example_invoice address)"
  by code_simp

lemma example_opened:
  "opened_as_zip ''inner.ZIP''" "opened_as_zip ''a.zip''" "opened_as_zip ''x/b.ZIP''"
  "\<not> opened_as_zip ''sub/20123456789-01-F001-7.zip''"
  "opened_on_disk ''reports.zip''" "\<not> opened_on_disk ''01-F001-7.zip''"
  by code_simp+

lemma example_basename:
  "os_path_basename ''sub/01-F001-7.xml'' = ''01-F001-7.xml''"
  "\<not> zip_is_dir ''sub/01-F001-7.xml''"
  by code_simp+

lemma classify_basename_None:
  "opened_as_zip zname \<Longrightarrow>
   classify_spec (os_path_basename zname) p = None"
  using classify_spec_None_path [of "os_path_basename zname" p "[]"]
  by (simp add: opened_as_zip_def)

lemma analyze_zip_opened:
  assumes "opened_as_zip zname"
  shows "analyze_zip_recursively ((zname, Zip nested) # rest) cur st
     = (case analyze_zip_recursively nested (cur @ '':'' @ zname) st of
          Inl e \<Rightarrow> Inl e
        | Inr st' \<Rightarrow> analyze_zip_recursively rest cur st')"
    and "analyze_zip_recursively ((zname, Data b) # rest) cur st
     = analyze_zip_recursively rest cur
         (st\<lparr>printed := printed st @ [Invalid_nested_zip (cur @ '':'' @ zname)]\<rparr>)"
proof -
  from assms have nd: "\<not> zip_is_dir zname" and z: "is_zip_name (os_path_basename zname)"
    by (simp_all add: opened_as_zip_def)
  note none = classify_basename_None [OF assms, of "cur @ '':'' @ zname"]
  show "analyze_zip_recursively ((zname, Zip nested) # rest) cur st
     = (case analyze_zip_recursively nested (cur @ '':'' @ zname) st of
          Inl e \<Rightarrow> Inl e
        | Inr st' \<Rightarrow> analyze_zip_recursively rest cur st')"
    by (rule analyze_zip_nested [OF nd none z])
  show "analyze_zip_recursively ((zname, Data b) # rest) cur st
     = analyze_zip_recursively rest cur
         (st\<lparr>printed := printed st @ [Invalid_nested_zip (cur @ '':'' @ zname)]\<rparr>)"
    by (rule analyze_zip_corrupt [OF nd none z])
qed

lemma analyze_zip_not_opened:
  assumes "\<not> opened_as_zip zname"
  shows "analyze_zip_recursively ((zname, c1) # rest) cur st
       = analyze_zip_recursively ((zname, c2) # rest) cur st"
proof (cases "zip_is_dir zname")
  case True
  then show ?thesis by (simp add: analyze_zip_dir)
next
  case nd: False
  show ?thesis
  proof (cases "classify_spec (os_path_basename zname) (cur @ '':'' @ zname)")
    case (Some d)
    show ?thesis by (simp only: analyze_zip_classified [OF nd Some])
  next
    case None
    then have "classify_spec (os_path_basename zname) [] = None"
      using classify_spec_None_path by blast
    with nd assms have nz: "\<not> is_zip_name (os_path_basename zname)"
      by (simp add: opened_as_zip_def)
    show ?thesis by (simp only: analyze_zip_plain [OF nd None nz])
  qed
qed

lemma nested_address_Cons:
  "nested_address base (s # segments) = nested_address (base @ '':'' @ s) segments"
  by (simp add: nested_address_def)

lemma analyze_zip_nest:
  assumes leaf: "\<not> zip_is_dir leaf"
      and names: "list_all opened_as_zip names"
  shows "classify_spec (os_path_basename leaf) (nested_address cur (names @ [leaf])) = Some d \<Longrightarrow>
         analyze_zip_recursively (nest names leaf content) cur st
           = Inr (mark_status d (os_path_basename leaf) st)"
  using names
proof (induction names arbitrary: cur)
  case Nil
  then have "classify_spec (os_path_basename leaf) (cur @ '':'' @ leaf) = Some d"
    by (simp add: nested_address_def)
  then show ?case
    by (simp only: nest.simps analyze_zip_classified [OF leaf] analyze_zip_Nil)
next
  case (Cons n ns)
  from Cons.prems have n: "opened_as_zip n" and ns: "list_all opened_as_zip ns" by simp_all
  from Cons.prems have
    "classify_spec (os_path_basename leaf) (nested_address (cur @ '':'' @ n) (ns @ [leaf])) = Some d"
    by (simp add: nested_address_Cons)
  then have "analyze_zip_recursively (nest ns leaf content) (cur @ '':'' @ n) st
           = Inr (mark_status d (os_path_basename leaf) st)"
    using ns by (rule Cons.IH)
  then show ?case
    by (simp only: nest.simps analyze_zip_opened(1) [OF n] sum.case analyze_zip_Nil)
qed

lemma scan_files_opened:
  assumes "opened_on_disk fname"
  shows "scan_files root ((fname, Zip entries) # rest) st
     = (case analyze_zip_recursively entries (os_path_join root fname) st of
          Inl e \<Rightarrow> Inl e
        | Inr st' \<Rightarrow> scan_files root rest st')"
    and "scan_files root ((fname, Data b) # rest) st
     = scan_files root rest
         (st\<lparr>printed := printed st @ [Invalid_zip_on_disk (os_path_join root fname)]\<rparr>)"
proof -
  from assms have z: "is_zip_name fname" by (simp add: opened_on_disk_def)
  have none: "classify_spec fname (os_path_join root fname) = None"
    using assms classify_spec_None_path [of fname "os_path_join root fname" "[]"]
    by (simp add: opened_on_disk_def)
  show "scan_files root ((fname, Zip entries) # rest) st
     = (case analyze_zip_recursively entries (os_path_join root fname) st of
          Inl e \<Rightarrow> Inl e
        | Inr st' \<Rightarrow> scan_files root rest st')"
    by (rule scan_files_zip [OF none z])
  show "scan_files root ((fname, Data b) # rest) st
     = scan_files root rest
         (st\<lparr>printed := printed st @ [Invalid_zip_on_disk (os_path_join root fname)]\<rparr>)"
    by (rule scan_files_corrupt [OF none z])
qed

lemma scan_files_not_opened:
  assumes "\<not> opened_on_disk fname"
  shows "scan_files root ((fname, c1) # rest) st = scan_files root ((fname, c2) # rest) st"
proof (cases "classify_spec fname (os_path_join root fname)")
  case (Some d)
  show ?thesis by (simp only: scan_files_classified [OF Some])
next
  case None
  then have "classify_spec fname [] = None"
    using classify_spec_None_path by blast
  with assms have nz: "\<not> is_zip_name fname" by (simp add: opened_on_disk_def)
  show ?thesis by (simp only: scan_files_plain [OF None nz])
qed

lemma mark_status_appends:
  assumes "classify_spec f p = Some d"
  shows "\<exists>r. found_files (mark_status d f st) = found_files st @ [r]
             \<and> path_of r = Some p \<and> filename_of r = Some f"
  using marked_record [OF assms] by (simp add: mark_status_def)

text \<open>
  Claim C6. An entry of an archive is opened and walked exactly when it is not a
  directory entry, its bare name ends in \<open>.zip\<close> in any letter case and no pattern
  classified it (\<open>opened_as_zip\<close>): then its entries are walked with the address
  \<open>current:entry\<close> before the siblings go on; otherwise its content is never looked at.
  The same holds for a file on disk (\<open>opened_on_disk\<close>), whose entries are walked under
  the file's path. A classified entry yields one record whose address is the container's
  address, a colon, and the entry's path inside the archive. Through any number of
  nested archives the record of the innermost file carries the whole chain of entry
  paths, colon-separated, after the address of the outermost container.
\<close>

theorem zip_descent_and_addresses:
  "(opened_as_zip zname \<longrightarrow>
      analyze_zip_recursively ((zname, Zip nested) # rest) cur st
        = (case analyze_zip_recursively nested (cur @ '':'' @ zname) st of
             Inl e \<Rightarrow> Inl e
           | Inr st' \<Rightarrow> analyze_zip_recursively rest cur st'))
   \<and> (\<not> opened_as_zip other \<longrightarrow>
        analyze_zip_recursively ((other, c1) # rest) cur st
          = analyze_zip_recursively ((other, c2) # rest) cur st)
   \<and> (opened_on_disk fname \<longrightarrow>
        scan_files root ((fname, Zip nested) # files) st
          = (case analyze_zip_recursively nested (os_path_join root fname) st of
               Inl e \<Rightarrow> Inl e
             | Inr st' \<Rightarrow> scan_files root files st'))
   \<and> (\<not> opened_on_disk fother \<longrightarrow>
        scan_files root ((fother, c1) # files) st = scan_files root ((fother, c2) # files) st)
   \<and> (\<not> zip_is_dir entry
        \<and> classify_spec (os_path_basename entry) (cur @ '':'' @ entry) = Some d \<longrightarrow>
        analyze_zip_recursively ((entry, c1) # rest) cur st
          = analyze_zip_recursively rest cur (mark_status d (os_path_basename entry) st)
        \<and> (\<exists>r. found_files (mark_status d (os_path_basename entry) st) = found_files st @ [r]
                \<and> path_of r = Some (cur @ '':'' @ entry)
                \<and> filename_of r = Some (os_path_basename entry)))
   \<and> (\<not> zip_is_dir leaf \<and> list_all opened_as_zip names
        \<and> classify_spec (os_path_basename leaf) (nested_address cur (names @ [leaf])) = Some d' \<longrightarrow>
        analyze_zip_recursively (nest names leaf content) cur st
          = Inr (mark_status d' (os_path_basename leaf) st)
        \<and> (\<exists>r. found_files (mark_status d' (os_path_basename leaf) st) = found_files st @ [r]
                \<and> path_of r = Some (nested_address cur (names @ [leaf]))))"
proof (intro conjI impI)
  assume "opened_as_zip zname"
  then show "analyze_zip_recursively ((zname, Zip nested) # rest) cur st
        = (case analyze_zip_recursively nested (cur @ '':'' @ zname) st of
             Inl e \<Rightarrow> Inl e
           | Inr st' \<Rightarrow> analyze_zip_recursively rest cur st')"
    by (rule analyze_zip_opened(1))
next
  assume "\<not> opened_as_zip other"
  then show "analyze_zip_recursively ((other, c1) # rest) cur st
          = analyze_zip_recursively ((other, c2) # rest) cur st"
    by (rule analyze_zip_not_opened)
next
  assume "opened_on_disk fname"
  then show "scan_files root ((fname, Zip nested) # files) st
          = (case analyze_zip_recursively nested (os_path_join root fname) st of
               Inl e \<Rightarrow> Inl e
             | Inr st' \<Rightarrow> scan_files root files st')"
    by (rule scan_files_opened(1))
next
  assume "\<not> opened_on_disk fother"
  then show "scan_files root ((fother, c1) # files) st = scan_files root ((fother, c2) # files) st"
    by (rule scan_files_not_opened)
next
  assume a: "\<not> zip_is_dir entry
        \<and> classify_spec (os_path_basename entry) (cur @ '':'' @ entry) = Some d"
  then show "analyze_zip_recursively ((entry, c1) # rest) cur st
          = analyze_zip_recursively rest cur (mark_status d (os_path_basename entry) st)"
    using analyze_zip_classified by blast
  from a show "\<exists>r. found_files (mark_status d (os_path_basename entry) st) = found_files st @ [r]
                \<and> path_of r = Some (cur @ '':'' @ entry)
                \<and> filename_of r = Some (os_path_basename entry)"
    using mark_status_appends by blast
next
  assume a: "\<not> zip_is_dir leaf \<and> list_all opened_as_zip names
        \<and> classify_spec (os_path_basename leaf) (nested_address cur (names @ [leaf])) = Some d'"
  then show "analyze_zip_recursively (nest names leaf content) cur st
          = Inr (mark_status d' (os_path_basename leaf) st)"
    using analyze_zip_nest by blast
  from a show "\<exists>r. found_files (mark_status d' (os_path_basename leaf) st) = found_files st @ [r]
                \<and> path_of r = Some (nested_address cur (names @ [leaf]))"
    using mark_status_appends by blast
qed

theorem zip_descent_and_addresses_witness:
  "opened_as_zip ''inner.ZIP'' \<and> \<not> opened_as_zip ''sub/20123456789-01-F001-7.zip''
   \<and> opened_on_disk ''reports.zip'' \<and> \<not> opened_on_disk ''01-F001-7.zip''
   \<and> list_all opened_as_zip [''a.zip'', ''x/b.ZIP'']
   \<and> analyze_zip_recursively [(''inner.ZIP'', Zip [])] ''/data/reports.zip'' initial_state
       = Inr initial_state
   \<and> analyze_zip_recursively [(''sub/20123456789-01-F001-7.zip'', Data ''junk'')]
         ''/data/reports.zip'' initial_state
       = analyze_zip_recursively [(''sub/20123456789-01-F001-7.zip'', Zip [])]
         ''/data/reports.zip'' initial_state
   \<and> scan_files ''/data'' [(''reports.zip'', Zip [])] initial_state = Inr initial_state
   \<and> scan_files ''/data'' [(''01-F001-7.zip'', Data ''junk'')] initial_state
       = scan_files ''/data'' [(''01-F001-7.zip'', Zip [])] initial_state
   \<and> analyze_zip_recursively [(''sub/01-F001-7.xml'', Data ''junk'')] ''/data/reports.zip''
         initial_state
       = Inr (mark_status (example_invoice ''/data/reports.zip:sub/01-F001-7.xml'')
                ''01-F001-7.xml'' initial_state)
   \<and> analyze_zip_recursively (nest [''a.zip'', ''x/b.ZIP''] ''sub/01-F001-7.xml'' (Data ''A''))
         ''/data/reports.zip'' initial_state
       = Inr (mark_status (example_invoice ''/data/reports.zip:a.zip:x/b.ZIP:sub/01-F001-7.xml'')
                ''01-F001-7.xml'' initial_state)"
proof -
  have chain: "nested_address ''/data/reports.zip'' [''a.zip'', ''x/b.ZIP'', ''sub/01-F001-7.xml'']
      = ''/data/reports.zip:a.zip:x/b.ZIP:sub/01-F001-7.xml''"
    by (simp add: nested_address_def)
  note inst = zip_descent_and_addresses [where zname = "''inner.ZIP''" and nested = "[]"
      and rest = "[]" and cur = "''/data/reports.zip''" and st = initial_state
      and other = "''sub/20123456789-01-F001-7.zip''" and ?c1.0 = "Data ''junk''"
      and ?c2.0 = "Zip []" and fname = "''reports.zip''" and root = "''/data''"
      and files = "[]" and fother = "''01-F001-7.zip''"
      and entry = "''sub/01-F001-7.xml''"
      and d = "example_invoice ''/data/reports.zip:sub/01-F001-7.xml''"
      and leaf = "''sub/01-F001-7.xml''" and names = "[''a.zip'', ''x/b.ZIP'']"
      and d' = "example_invoice ''/data/reports.zip:a.zip:x/b.ZIP:sub/01-F001-7.xml''"
      and content = "Data ''A''"]
  show ?thesis
    using inst example_opened
    by (simp only: example_basename example_invoice_classified chain list.pred_inject
        analyze_zip_Nil scan_files.simps(1) sum.case simp_thms append.simps)
qed

subsection \<open>Corrupt archives\<close>




lemma records_printed [simp]: "records (st\<lparr>printed := ws\<rparr>) = records st"
  by (simp add: records_def)

lemma printed_mark_status [simp]: "printed (mark_status d f st) = printed st"
  by (simp add: mark_status_def)


















subsection \<open>The root of a discovery run\<close>

lemma find_files_not_dir: "\<not> os_path_isdir fs p \<Longrightarrow> find_files fs p = Inr []"
  by (auto simp: find_files_def find_files_run_def os_path_isdir_def initial_state_def
      split: option.splits fsnode.splits)

lemma find_files_empty_dir: "fs p = Some (Dir []) \<Longrightarrow> find_files fs p = Inr []"
  by (simp add: find_files_def find_files_run_def initial_state_def)

text \<open>
  Claim C5, as stated, asks discovery to fail with an error on a root that is not an
  existing directory. \<open>find_files\<close> does not: on the empty disk the root \<open>/missing\<close>
  is no directory and the result is the empty list.
\<close>

theorem find_files_missing_root_counterexample:
  "\<not> os_path_isdir empty_disk ''/missing'' \<and> find_files empty_disk ''/missing'' = Inr []"
  by (simp add: find_files_not_dir os_path_isdir_def empty_disk_def)

text \<open>
  Claim C5, amended. \<open>find_files\<close> returns the empty list, without error, when its root
  is not an existing directory; the error for such a root is raised one layer up, by the
  HTTP find endpoint, which answers 400 when the path is not absolute or not an existing
  directory and never calls discovery then. For an existing empty directory discovery
  returns the empty list without error, and the endpoint reports zero files.
\<close>

theorem discovery_root_kind:
  "(\<not> os_path_isdir fs p \<longrightarrow> find_files fs p = Inr [])
   \<and> (\<not> os_path_isabs p \<or> \<not> os_path_isdir fs p \<longrightarrow>
        find_endpoint fs p = Inl (HTTPException 400 (Invalid_path p)))
   \<and> (fs p = Some (Dir []) \<longrightarrow>
        find_files fs p = Inr []
        \<and> (os_path_isabs p \<longrightarrow>
             find_endpoint fs p
               = Inr \<lparr>search_path_echo = p, resp_files_found = 0, resp_files = []\<rparr>))"
  by (auto simp: find_files_not_dir find_files_empty_dir find_endpoint_def os_path_isdir_def)

theorem discovery_root_kind_witness:
  "\<not> os_path_isdir empty_disk ''/missing'' \<and> find_files empty_disk ''/missing'' = Inr []
   \<and> find_endpoint empty_disk ''/missing'' = Inl (HTTPException 400 (Invalid_path ''/missing''))
   \<and> empty_dir_disk ''/data'' = Some (Dir []) \<and> os_path_isabs ''/data''
   \<and> find_files empty_dir_disk ''/data'' = Inr []
   \<and> find_endpoint empty_dir_disk ''/data''
       = Inr \<lparr>search_path_echo = ''/data'', resp_files_found = 0, resp_files = []\<rparr>"
proof -
  have a: "\<not> os_path_isdir empty_disk ''/missing''"
    by (simp add: os_path_isdir_def empty_disk_def)
  have b: "empty_dir_disk ''/data'' = Some (Dir [])"
    by (simp add: empty_dir_disk_def)
  have c: "os_path_isabs ''/data''"
    by (simp add: os_path_isabs_def startswith_def)
  show ?thesis
    using discovery_root_kind [of empty_disk "''/missing''"]
      discovery_root_kind [of empty_dir_disk "''/data''"] a b c
    by simp
qed

section \<open>Proofs: the path resolver\<close>

lemma str_split_not_Nil [simp]: "str_split c s \<noteq> []"
  by (induction s) (auto split: list.splits)

lemma str_split_no_sep: "p \<in> set (str_split c s) \<Longrightarrow> c \<notin> set p"
proof (induction s arbitrary: p)
  case Nil
  then show ?case by simp
next
  case (Cons x xs)
  obtain q qs where q: "str_split c xs = q # qs"
    using str_split_not_Nil [of c xs] by (cases "str_split c xs") auto
  show ?case
  proof (cases "x = c")
    case True
    with Cons show ?thesis by auto
  next
    case False
    with Cons.prems q have "p = x # q \<or> p \<in> set qs" by auto
    then show ?thesis
      using Cons.IH q False by auto
  qed
qed

lemma str_split_without_sep: "c \<notin> set s \<Longrightarrow> str_split c s = [s]"
  by (induction s) auto

lemma str_split_prefix:
  "c \<notin> set a \<Longrightarrow> str_split c (a @ c # s) = a # str_split c s"
  by (induction a) auto

lemma str_join_split: "str_join c (str_split c s) = s"
proof (induction s)
  case Nil
  then show ?case by simp
next
  case (Cons x xs)
  obtain q qs where q: "str_split c xs = q # qs"
    using str_split_not_Nil [of c xs] by (cases "str_split c xs") auto
  show ?case
  proof (cases "x = c")
    case True
    with Cons q show ?thesis by simp
  next
    case False
    with Cons q show ?thesis by (cases qs) auto
  qed
qed

lemma str_split_join:
  "ps \<noteq> [] \<Longrightarrow> \<forall>p \<in> set ps. c \<notin> set p \<Longrightarrow> str_split c (str_join c ps) = ps"
proof (induction c ps rule: str_join.induct)
  case (1 c)
  then show ?case by simp
next
  case (2 c p)
  then show ?case by (simp add: str_split_without_sep)
next
  case (3 c p q ps)
  then show ?case by (simp add: str_split_prefix)
qed

lemma dropWhile_before_stop:
  "\<not> P y \<Longrightarrow> dropWhile P (xs @ y # ys) = dropWhile P xs @ y # ys"
  by (induction xs) auto

lemma lstrip_join:
  assumes "CHR '':'' \<notin> set p"
  shows "lstrip CHR ''/'' (str_join CHR '':'' (p # ps))
       = str_join CHR '':'' (lstrip CHR ''/'' p # ps)"
proof (cases ps)
  case Nil
  then show ?thesis by simp
next
  case (Cons q qs)
  then show ?thesis by (simp add: lstrip_def dropWhile_before_stop)
qed

lemma lstrip_subset: "set (lstrip c s) \<subseteq> set s"
  by (simp add: lstrip_def set_dropWhileD subsetI)

lemma split_lstrip_join:
  assumes "\<forall>p \<in> set (p1 # ps). CHR '':'' \<notin> set p"
  shows "str_split CHR '':'' (lstrip CHR ''/'' (str_join CHR '':'' (p1 # ps)))
       = lstrip CHR ''/'' p1 # ps"
proof -
  from assms have p1: "CHR '':'' \<notin> set p1" by simp
  then have "CHR '':'' \<notin> set (lstrip CHR ''/'' p1)" using lstrip_subset by fastforce
  with assms have "\<forall>p \<in> set (lstrip CHR ''/'' p1 # ps). CHR '':'' \<notin> set p" by simp
  then show ?thesis
    by (simp only: lstrip_join [OF p1] str_split_join [OF list.distinct(2)])
qed

lemma parse_zip_path_spec: "parse_zip_path os_sep address = Inr (resolve_spec os_sep address)"
proof -
  define parts where "parts = str_split CHR '':'' (str_replace (CHR 0x5C) CHR ''/'' address)"
  have ne: "parts \<noteq> []" by (simp add: parts_def)
  have nosep: "\<forall>p \<in> set parts. CHR '':'' \<notin> set p"
    using str_split_no_sep by (auto simp: parts_def)
  have p0: "py_index parts 0 = Inr (hd parts)"
    using ne by (cases parts) (simp_all add: py_index_def)
  show ?thesis
  proof (cases "1 < length parts \<and> length (hd parts) = 1 \<and> startswith (parts ! 1) ''/''")
    case True
    then obtain a b more where parts: "parts = a # b # more"
      by (cases parts; cases "tl parts") auto
    have drive: "has_drive_letter parts = Inr True"
      using True parts by (simp add: has_drive_letter_def py_index_def)
    have "str_split CHR '':'' (lstrip CHR ''/'' (str_join CHR '':'' (b # more)))
        = lstrip CHR ''/'' b # more"
      using nosep parts by (intro split_lstrip_join) simp
    then show ?thesis
      using True drive p0 parts
      by (simp add: parse_zip_path_def resolve_spec_def py_index_def flip: parts_def)
  next
    case False
    then have "has_drive_letter parts = Inr False"
      using ne by (cases parts; cases "tl parts")
        (auto simp: has_drive_letter_def py_index_def)
    moreover have "resolve_spec os_sep address
        = (str_replace CHR ''/'' os_sep (hd parts), drop 1 parts)"
      unfolding resolve_spec_def Let_def parts_def [symmetric] using False by (rule if_not_P)
    ultimately show ?thesis
      using p0 by (simp add: parse_zip_path_def flip: parts_def)
  qed
qed

lemma str_replace_restore:
  assumes "\<forall>c \<in> set s. c = CHR 0x5C \<or> c = CHR ''/'' \<longrightarrow> c = os_sep"
  shows "str_replace CHR ''/'' os_sep (str_replace (CHR 0x5C) CHR ''/'' s) = s"
  using assms by (induction s) (auto simp: str_replace_def)

lemma str_replace_keeps_colons:
  "CHR '':'' \<notin> set s \<Longrightarrow> CHR '':'' \<notin> set (str_replace (CHR 0x5C) CHR ''/'' s)"
  by (auto simp: str_replace_def)

lemma resolve_spec_no_colon:
  assumes "CHR '':'' \<notin> set address"
  shows "resolve_spec os_sep address
       = (str_replace CHR ''/'' os_sep (str_replace (CHR 0x5C) CHR ''/'' address), [])"
  using str_replace_keeps_colons [OF assms]
  by (simp add: resolve_spec_def str_split_without_sep)

text \<open>
  Claim C8, as stated, makes the whole string the physical path of an address without
  nesting colons. The resolver first rewrites backslashes to slashes: with \<open>os.sep\<close> a
  slash, the colon-free address \<open>a\b\<close> resolves to the physical path \<open>a/b\<close>, another
  string (and on POSIX another file).
\<close>

theorem parse_zip_path_whole_string_counterexample:
  "CHR '':'' \<notin> set backslash_name
   \<and> parse_zip_path CHR ''/'' backslash_name = Inr (''a/b'', [])
   \<and> ''a/b'' \<noteq> backslash_name"
  by (simp add: parse_zip_path_spec resolve_spec_no_colon backslash_name_def str_replace_def)

text \<open>
  Claim C8, amended. For every address the resolver returns a pair, never an error, and
  does no I/O. It rewrites every backslash to a slash, cuts the result at its colons into
  ordered pieces (joining them with colons gives the normalised address back, and no
  piece holds a colon), and takes the first piece as the physical path and the others as
  the nesting segments; except that when the first piece is a single character and the
  second begins with a slash, the physical path is that character, \<open>:/\<close>, and the second
  piece without its leading slashes, and the segments are the pieces from the third on.
  The physical path is returned with slashes rewritten to \<open>os.sep\<close>. An address without
  a colon resolves to zero segments and its separator-normalised string; that is the
  address itself when it has no slash or backslash other than \<open>os.sep\<close>.
\<close>

theorem parse_zip_path_resolves:
  "parse_zip_path os_sep address = Inr (resolve_spec os_sep address)
   \<and> str_join CHR '':'' (str_split CHR '':'' (str_replace (CHR 0x5C) CHR ''/'' address))
       = str_replace (CHR 0x5C) CHR ''/'' address
   \<and> (\<forall>p \<in> set (str_split CHR '':'' (str_replace (CHR 0x5C) CHR ''/'' address)).
         CHR '':'' \<notin> set p)
   \<and> (CHR '':'' \<notin> set address \<longrightarrow>
        parse_zip_path os_sep address
          = Inr (str_replace CHR ''/'' os_sep (str_replace (CHR 0x5C) CHR ''/'' address), []))
   \<and> (CHR '':'' \<notin> set address
        \<and> (\<forall>c \<in> set address. c = CHR 0x5C \<or> c = CHR ''/'' \<longrightarrow> c = os_sep) \<longrightarrow>
        parse_zip_path os_sep address = Inr (address, []))"
  using str_split_no_sep
  by (auto simp: parse_zip_path_spec str_join_split resolve_spec_no_colon str_replace_restore)

theorem parse_zip_path_resolves_witness:
  "parse_zip_path CHR ''/'' ''/data/r.zip:in/a.zip:01-F001-7.xml''
     = Inr (''/data/r.zip'', [''in/a.zip'', ''01-F001-7.xml''])
   \<and> parse_zip_path (CHR 0x5C) windows_address
       = Inr (windows_base, [''in/a.zip'', ''01-F001-7.xml''])
   \<and> CHR '':'' \<notin> set ''/data/01-F001-7.xml''
   \<and> parse_zip_path CHR ''/'' ''/data/01-F001-7.xml'' = Inr (''/data/01-F001-7.xml'', [])"
proof -
  have a: "resolve_spec CHR ''/'' ''/data/r.zip:in/a.zip:01-F001-7.xml''
      = (''/data/r.zip'', [''in/a.zip'', ''01-F001-7.xml''])"
    by code_simp
  have b: "resolve_spec (CHR 0x5C) windows_address
      = (windows_base, [''in/a.zip'', ''01-F001-7.xml''])"
    by code_simp
  have c: "CHR '':'' \<notin> set ''/data/01-F001-7.xml''"
    "\<forall>c \<in> set ''/data/01-F001-7.xml''. c = CHR 0x5C \<or> c = CHR ''/'' \<longrightarrow> c = CHR ''/''"
    by simp_all
  have p1: "parse_zip_path CHR ''/'' ''/data/r.zip:in/a.zip:01-F001-7.xml''
      = Inr (''/data/r.zip'', [''in/a.zip'', ''01-F001-7.xml''])"
    using parse_zip_path_resolves [of "CHR ''/''" "''/data/r.zip:in/a.zip:01-F001-7.xml''",
        THEN conjunct1]
    by (simp only: a)
  have p2: "parse_zip_path (CHR 0x5C) windows_address
      = Inr (windows_base, [''in/a.zip'', ''01-F001-7.xml''])"
    using parse_zip_path_resolves [of "CHR 0x5C" windows_address, THEN conjunct1]
    by (simp only: b)
  note p3 = parse_zip_path_resolves [of "CHR ''/''" "''/data/01-F001-7.xml''",
      THEN conjunct2, THEN conjunct2, THEN conjunct2, THEN conjunct2, rule_format,
      OF conjI [OF c(1) c(2)]]
  show ?thesis
    by (rule conjI [OF p1 conjI [OF p2 conjI [OF c(1) p3]]])
qed

section \<open>Proofs: extractor and packager\<close>

lemma extract_from_zip_entry_at:
  "inner \<noteq> [] \<Longrightarrow> (extract_from_zip content inner = Inr data) = (entry_at content inner = Some data)"
proof (induction content inner rule: extract_from_zip.induct)
  case (1 b inner)
  then show ?case by (cases inner) simp_all
next
  case (2 entries)
  then show ?case by simp
next
  case (3 entries p)
  then show ?case by (auto simp: zf_read_def split: option.splits)
next
  case (4 entries p q ps)
  then show ?case by (auto simp: zf_read_def split: option.splits)
qed

lemma extract_from_zip_no_index_error:
  "inner \<noteq> [] \<Longrightarrow> extract_from_zip content inner \<noteq> Inl IndexError"
proof (induction content inner rule: extract_from_zip.induct)
  case (4 entries p q ps)
  then show ?case by (auto simp: zf_read_def split: option.splits)
qed (auto simp: zf_read_def split: option.splits)

lemma extract_from_path_no_index_error:
  "inner \<noteq> [] \<Longrightarrow> extract_from_path fs p inner \<noteq> Inl IndexError"
  using extract_from_zip_no_index_error
  by (auto simp: extract_from_path_def read_file_def split: option.splits fsnode.splits)

lemma read_file_no_index_error: "read_file fs p \<noteq> Inl IndexError"
  by (auto simp: read_file_def split: option.splits fsnode.splits)

lemma loop_step_refl [simp]: "loop_step st st"
  by (simp add: loop_step_def)

lemma loop_step_trans: "loop_step a b \<Longrightarrow> loop_step b c \<Longrightarrow> loop_step a c"
  by (auto simp: loop_step_def)

lemma loop_step_log: "no_index_error m \<Longrightarrow> loop_step st (log_action logging m st)"
  by (simp add: loop_step_def log_action_def)

lemma loop_step_emit:
  "phase ev = 2 \<Longrightarrow> extract_call_ok ev \<Longrightarrow> loop_step st (emit ev st)"
  by (simp add: loop_step_def emit_def)

lemma loop_step_writestr: "loop_step st (writestr name data st)"
  by (simp add: loop_step_def writestr_def emit_def)

lemma add_to_package_step:
  "add_to_package os_sep logging full_path filename st = (st', err) \<Longrightarrow>
   loop_step st st' \<and> err \<noteq> Some IndexError"
proof -
  assume a: "add_to_package os_sep logging full_path filename st = (st', err)"
  obtain base inner where r: "resolve_spec os_sep full_path = (base, inner)"
    by (cases "resolve_spec os_sep full_path") auto
  show ?thesis
  proof (cases "inner = []")
    case True
    have rd: "loop_step st (emit (Ev_read_file base) st)"
      by (rule loop_step_emit) simp_all
    show ?thesis
    proof (cases "os_path_exists (disk st) base")
      case ex: True
      show ?thesis
      proof (cases "read_file (disk st) base")
        case (Inl e)
        then show ?thesis
          using a r True ex rd read_file_no_index_error [of "disk st" base]
          by (auto simp: add_to_package_def parse_zip_path_spec)
      next
        case (Inr data)
        have "loop_step st (log_action logging (Log_added filename)
            (writestr filename data (emit (Ev_read_file base) st)))"
          using rd loop_step_writestr loop_step_log loop_step_trans
          by (meson no_index_error.simps)
        then show ?thesis
          using a r True ex Inr by (auto simp: add_to_package_def parse_zip_path_spec)
      qed
    next
      case False
      then show ?thesis
        using a r True by (auto simp: add_to_package_def parse_zip_path_spec loop_step_log)
    qed
  next
    case ne: False
    have rd: "loop_step st (emit (Ev_extract base inner) st)"
      using ne by (intro loop_step_emit) simp_all
    show ?thesis
    proof (cases "os_path_exists (disk st) base")
      case ex: True
      show ?thesis
      proof (cases "extract_from_path (disk st) base inner")
        case (Inl e)
        then show ?thesis
          using a r ne ex rd extract_from_path_no_index_error [OF ne, of "disk st" base]
          by (auto simp: add_to_package_def parse_zip_path_spec)
      next
        case (Inr data)
        have "loop_step st (log_action logging (Log_extracted filename)
            (writestr filename data (emit (Ev_extract base inner) st)))"
          using rd loop_step_writestr loop_step_log loop_step_trans
          by (meson no_index_error.simps)
        then show ?thesis
          using a r ne ex Inr by (auto simp: add_to_package_def parse_zip_path_spec)
      qed
    next
      case False
      then show ?thesis
        using a r ne by (auto simp: add_to_package_def parse_zip_path_spec loop_step_log)
    qed
  qed
qed

lemma package_file_step:
  "package_file os_sep logging file_info st = (st', err) \<Longrightarrow> loop_step st st'"
proof -
  assume a: "package_file os_sep logging file_info st = (st', err)"
  show ?thesis
  proof (cases "dict_item file_info ''path''")
    case (Inl e)
    then show ?thesis using a by (simp add: package_file_def)
  next
    case p: (Inr full_path)
    show ?thesis
    proof (cases "dict_item file_info ''filename''")
      case (Inl e)
      then show ?thesis using a p by (simp add: package_file_def)
    next
      case f: (Inr filename)
      let ?st1 = "log_action logging (Log_processing filename) st"
      obtain st2 err2 where b: "add_to_package os_sep logging full_path filename ?st1 = (st2, err2)"
        by (cases "add_to_package os_sep logging full_path filename ?st1") auto
      have s1: "loop_step st ?st1" by (rule loop_step_log) simp
      have s2: "loop_step ?st1 st2" and ni: "err2 \<noteq> Some IndexError"
        using add_to_package_step [OF b] by simp_all
      show ?thesis
      proof (cases err2)
        case None
        then show ?thesis
          using a p f b loop_step_trans [OF s1 s2] by (simp add: package_file_def)
      next
        case (Some e)
        with ni have "no_index_error (Log_error full_path e)" by simp
        then have "loop_step st2 (log_action logging (Log_error full_path e) st2)"
          by (rule loop_step_log)
        then show ?thesis
          using a p f b Some loop_step_trans [OF loop_step_trans [OF s1 s2]]
          by (simp add: package_file_def)
      qed
    qed
  qed
qed

lemma package_files_step:
  "package_files os_sep logging recs st = (st', err) \<Longrightarrow> loop_step st st'"
proof (induction recs arbitrary: st)
  case Nil
  then show ?case by simp
next
  case (Cons r recs)
  obtain st1 err1 where a: "package_file os_sep logging r st = (st1, err1)"
    by (cases "package_file os_sep logging r st") auto
  have s1: "loop_step st st1" using a by (rule package_file_step)
  show ?case
  proof (cases err1)
    case None
    then have "package_files os_sep logging recs st1 = (st', err)"
      using Cons.prems a by simp
    then have "loop_step st1 st'" by (rule Cons.IH)
    with s1 show ?thesis by (rule loop_step_trans)
  next
    case (Some e)
    then have "st' = st1" using Cons.prems a by simp
    with s1 show ?thesis by simp
  qed
qed

lemma log_action_fields [simp]:
  "disk (log_action logging m st) = disk st"
  "trace (log_action logging m st) = trace st"
  "final_zip (log_action logging m st) = final_zip st"
  by (simp_all add: log_action_def)

lemma emit_fields [simp]:
  "disk (emit ev st) = disk st"
  "trace (emit ev st) = trace st @ [ev]"
  "final_zip (emit ev st) = final_zip st"
  "log_lines (emit ev st) = log_lines st"
  by (simp_all add: emit_def)

lemma remove_file_fields:
  "trace (remove_file logging p st) = trace st @ [Ev_remove p]"
  "final_zip (remove_file logging p st) = final_zip st"
  "q \<noteq> p \<Longrightarrow> disk (remove_file logging p st) q = disk st q"
  by (auto simp: remove_file_def split: option.splits fsnode.splits)

lemma remove_files_fields:
  "trace (remove_files logging ps st) = trace st @ map Ev_remove ps"
  "final_zip (remove_files logging ps st) = final_zip st"
  "q \<notin> set ps \<Longrightarrow> disk (remove_files logging ps st) q = disk st q"
  by (induction ps arbitrary: st) (auto simp: remove_file_fields)

lemma open_output_Inr:
  assumes "open_output out st = Inr st'"
  shows "trace st' = trace st @ [Ev_open_output out]"
    and "disk st' = (disk st)(out \<mapsto> File (Data []))"
    and "final_zip st' = []"
  using assms by (auto simp: open_output_def split: option.splits fsnode.splits)

lemma open_output_Inl:
  "(\<exists>e. open_output out st = Inl e) = os_path_isdir (disk st) out"
  by (auto simp: open_output_def os_path_isdir_def split: option.splits fsnode.splits)

lemma close_output_fields [simp]:
  "trace (close_output out st) = trace st @ [Ev_close_output out]"
  "disk (close_output out st) = (disk st)(out \<mapsto> File (Zip (final_zip st)))"
  "final_zip (close_output out st) = final_zip st"
  by (simp_all add: close_output_def)

lemma write_log_fields:
  "trace (write_log render p st) = trace st @ [Ev_write_log p]"
  "final_zip (write_log render p st) = final_zip st"
  "q \<noteq> p \<Longrightarrow> disk (write_log render p st) q = disk st q"
  by (auto simp: write_log_def split: option.splits fsnode.splits)

lemma prepare_output_dir_fields:
  "list_all (\<lambda>e. phase e = 0) (trace (prepare_output_dir logging out fs))"
  "final_zip (prepare_output_dir logging out fs) = []"
  "list_all no_index_error (log_lines (prepare_output_dir logging out fs))"
  "fs q \<noteq> None \<Longrightarrow> disk (prepare_output_dir logging out fs) q = fs q"
  "q \<noteq> os_path_dirname out \<Longrightarrow> disk (prepare_output_dir logging out fs) q = fs q"
  by (auto simp: prepare_output_dir_def Let_def os_path_exists_def log_action_def)

lemma finish_package_fields:
  "\<exists>wl. trace (finish_package render logging dels out logp st)
           = trace st @ map Ev_remove dels @ wl \<and> list_all (\<lambda>e. phase e = 5) wl"
  "final_zip (finish_package render logging dels out logp st) = final_zip st"
  "q \<notin> set dels \<Longrightarrow> logp \<noteq> Some q \<Longrightarrow>
     disk (finish_package render logging dels out logp st) q = disk st q"
  by (auto simp: finish_package_def Let_def remove_files_fields write_log_fields
      split: option.splits)

lemma is_remove_phase: "is_remove e = (phase e = 4)"
  by (cases e) simp_all

lemma package_files_error:
  "package_files os_sep logging recs st = (st', Some e) \<Longrightarrow> \<exists>k. e = KeyError k"
proof (induction recs arbitrary: st)
  case Nil
  then show ?case by simp
next
  case (Cons r recs)
  obtain st1 err1 where a: "package_file os_sep logging r st = (st1, err1)"
    by (cases "package_file os_sep logging r st") auto
  show ?case
  proof (cases err1)
    case None
    then show ?thesis using Cons a by simp
  next
    case (Some e1)
    then have "e = e1" using Cons.prems a by simp
    moreover have "\<exists>k. e1 = KeyError k"
      using a Some
      by (auto simp: package_file_def dict_item_def split: sum.splits option.splits prod.splits)
    ultimately show ?thesis by simp
  qed
qed

lemma log_lines_log_action:
  "log_lines (log_action logging m st) = log_lines st @ (if logging then [m] else [])"
  by (simp add: log_action_def)

lemma remove_files_log:
  "list_all no_index_error (log_lines st) \<Longrightarrow>
   list_all no_index_error (log_lines (remove_files logging ps st))"
  by (induction ps arbitrary: st)
    (auto simp: remove_file_def log_lines_log_action split: option.splits fsnode.splits)

lemma finish_package_log:
  "list_all no_index_error (log_lines st) \<Longrightarrow>
   list_all no_index_error (log_lines (finish_package render logging dels out logp st))"
  by (auto simp: finish_package_def Let_def log_lines_log_action remove_files_log write_log_def
      emit_def split: option.splits fsnode.splits)

text \<open>The shape of every run of the packager.\<close>

lemma create_zip_package_shape:
  assumes run: "create_zip_package os_sep render recs dels out logp fs = (st, err)"
  shows "\<exists>pre evs post.
           trace st = pre @ evs @ post
           \<and> list_all (\<lambda>e. phase e \<le> 1) pre \<and> sorted (map phase pre)
           \<and> list_all (\<lambda>e. phase e = 2 \<and> extract_call_ok e) evs
           \<and> (case err of
                 Some e \<Rightarrow> (post = [] \<or> post = [Ev_close_output out]) \<and> e \<noteq> IndexError
               | None \<Rightarrow> (\<exists>wl. post = Ev_close_output out # map Ev_remove dels @ wl
                              \<and> list_all (\<lambda>e. phase e = 5) wl))"
    and "list_all no_index_error (log_lines st)"
    and "err \<noteq> None \<Longrightarrow> p \<noteq> out \<Longrightarrow> fs p \<noteq> None \<Longrightarrow> disk st p = fs p"
proof -
  define logging where "logging = truthy logp"
  define st1 where "st1 = prepare_output_dir logging out fs"
  have t1: "list_all (\<lambda>e. phase e = 0) (trace st1)"
    and l1: "list_all no_index_error (log_lines st1)"
    and d1: "\<And>q. fs q \<noteq> None \<Longrightarrow> disk st1 q = fs q"
    unfolding st1_def by (rule prepare_output_dir_fields)+
  from t1 have pre0: "list_all (\<lambda>e. phase e \<le> 1) (trace st1)" "sorted (map phase (trace st1))"
    by (induction "trace st1") (auto simp: list_all_iff sorted_wrt_iff_nth_less)
  have all: "(\<exists>pre evs post.
           trace st = pre @ evs @ post
           \<and> list_all (\<lambda>e. phase e \<le> 1) pre \<and> sorted (map phase pre)
           \<and> list_all (\<lambda>e. phase e = 2 \<and> extract_call_ok e) evs
           \<and> (case err of
                 Some e \<Rightarrow> (post = [] \<or> post = [Ev_close_output out]) \<and> e \<noteq> IndexError
               | None \<Rightarrow> (\<exists>wl. post = Ev_close_output out # map Ev_remove dels @ wl
                              \<and> list_all (\<lambda>e. phase e = 5) wl)))
      \<and> list_all no_index_error (log_lines st)
      \<and> (err \<noteq> None \<longrightarrow> p \<noteq> out \<longrightarrow> fs p \<noteq> None \<longrightarrow> disk st p = fs p)"
  proof (cases "open_output out st1")
    case (Inl e)
    then have res: "st = st1" "err = Some e"
      using run by (simp_all add: create_zip_package_def Let_def logging_def st1_def)
    have "e \<noteq> IndexError"
      using Inl by (auto simp: open_output_def split: option.splits fsnode.splits)
    then have "trace st = trace st1 @ [] @ [] \<and> list_all (\<lambda>e. phase e \<le> 1) (trace st1)
        \<and> sorted (map phase (trace st1))
        \<and> list_all (\<lambda>e. phase e = 2 \<and> extract_call_ok e) []
        \<and> (case err of
                 Some e \<Rightarrow> ([] = [] \<or> [] = [Ev_close_output out]) \<and> e \<noteq> IndexError
               | None \<Rightarrow> (\<exists>wl. [] = Ev_close_output out # map Ev_remove dels @ wl
                              \<and> list_all (\<lambda>e. phase e = 5) wl))"
      using pre0 res by simp
    then show ?thesis using l1 d1 res by blast
  next
    case (Inr st2)
    note o = open_output_Inr [OF Inr]
    have l2: "log_lines st2 = log_lines st1"
      using Inr by (auto simp: open_output_def emit_def split: option.splits fsnode.splits)
    obtain st3 e3 where pf: "package_files os_sep logging recs st2 = (st3, e3)"
      by (cases "package_files os_sep logging recs st2") auto
    from package_files_step [OF pf] obtain evs ls where
      d3: "disk st3 = disk st2" and t3: "trace st3 = trace st2 @ evs"
      and evs: "list_all (\<lambda>e. phase e = 2 \<and> extract_call_ok e) evs"
      and l3: "log_lines st3 = log_lines st2 @ ls" "list_all no_index_error ls"
      by (auto simp: loop_step_def)
    let ?pre = "trace st1 @ [Ev_open_output out]"
    have pre: "list_all (\<lambda>e. phase e \<le> 1) ?pre" "sorted (map phase ?pre)"
      using pre0 by (auto simp: sorted_append list_all_iff)
    have lc: "list_all no_index_error (log_lines (close_output out st3))"
      using l1 l2 l3 by (simp add: close_output_def emit_def)
    show ?thesis
    proof (cases e3)
      case (Some e)
      then have res: "st = close_output out st3" "err = Some e"
        using run Inr pf by (simp_all add: create_zip_package_def Let_def logging_def st1_def)
      have ne: "e \<noteq> IndexError"
        using package_files_error pf Some by blast
      have "trace st = ?pre @ evs @ [Ev_close_output out]"
        using res t3 o(1) by simp
      then have "trace st = ?pre @ evs @ [Ev_close_output out]
          \<and> list_all (\<lambda>e. phase e \<le> 1) ?pre \<and> sorted (map phase ?pre)
          \<and> list_all (\<lambda>e. phase e = 2 \<and> extract_call_ok e) evs
          \<and> (case err of
                 Some e \<Rightarrow> ([Ev_close_output out] = [] \<or> [Ev_close_output out] = [Ev_close_output out])
                          \<and> e \<noteq> IndexError
               | None \<Rightarrow> (\<exists>wl. [Ev_close_output out] = Ev_close_output out # map Ev_remove dels @ wl
                              \<and> list_all (\<lambda>e. phase e = 5) wl))"
        using pre evs res ne by simp
      moreover have "p \<noteq> out \<longrightarrow> fs p \<noteq> None \<longrightarrow> disk st p = fs p"
        using res d3 o(2) d1 by simp
      ultimately show ?thesis using lc res by blast
    next
      case None
      let ?c = "close_output out st3"
      have res: "st = finish_package render logging dels out logp ?c" "err = None"
        using run Inr pf None
        by (simp_all add: create_zip_package_def Let_def logging_def st1_def)
      obtain wl where wl: "trace st = trace ?c @ map Ev_remove dels @ wl"
        "list_all (\<lambda>e. phase e = 5) wl"
        using finish_package_fields(1) [of render logging dels out logp ?c] res by blast
      have "trace st = ?pre @ evs @ (Ev_close_output out # map Ev_remove dels @ wl)"
        using wl(1) t3 o(1) by simp
      then have "trace st = ?pre @ evs @ (Ev_close_output out # map Ev_remove dels @ wl)
          \<and> list_all (\<lambda>e. phase e \<le> 1) ?pre \<and> sorted (map phase ?pre)
          \<and> list_all (\<lambda>e. phase e = 2 \<and> extract_call_ok e) evs
          \<and> (case err of
                 Some e \<Rightarrow> ((Ev_close_output out # map Ev_remove dels @ wl) = []
                            \<or> (Ev_close_output out # map Ev_remove dels @ wl) = [Ev_close_output out])
                          \<and> e \<noteq> IndexError
               | None \<Rightarrow> (\<exists>wl'. (Ev_close_output out # map Ev_remove dels @ wl)
                                 = Ev_close_output out # map Ev_remove dels @ wl'
                              \<and> list_all (\<lambda>e. phase e = 5) wl'))"
        using pre evs res wl(2) by simp
      moreover have "list_all no_index_error (log_lines st)"
        unfolding res(1) using lc by (rule finish_package_log)
      ultimately show ?thesis using res by blast
    qed
  qed
  from all show "\<exists>pre evs post.
           trace st = pre @ evs @ post
           \<and> list_all (\<lambda>e. phase e \<le> 1) pre \<and> sorted (map phase pre)
           \<and> list_all (\<lambda>e. phase e = 2 \<and> extract_call_ok e) evs
           \<and> (case err of
                 Some e \<Rightarrow> (post = [] \<or> post = [Ev_close_output out]) \<and> e \<noteq> IndexError
               | None \<Rightarrow> (\<exists>wl. post = Ev_close_output out # map Ev_remove dels @ wl
                              \<and> list_all (\<lambda>e. phase e = 5) wl))"
    by blast
  from all show "list_all no_index_error (log_lines st)" by blast
  from all show "err \<noteq> None \<Longrightarrow> p \<noteq> out \<Longrightarrow> fs p \<noteq> None \<Longrightarrow> disk st p = fs p"
    by blast
qed

lemma extract_call_ok_other: "phase e \<noteq> 2 \<Longrightarrow> extract_call_ok e"
  by (cases e) simp_all

lemma filter_remove_none: "list_all (\<lambda>e. phase e \<noteq> 4) evs \<Longrightarrow> filter is_remove evs = []"
  by (induction evs) (auto simp: is_remove_phase)

lemma filter_remove_map: "filter is_remove (map Ev_remove ps) = map Ev_remove ps"
  by (induction ps) auto

lemma sorted_constant: "\<forall>x \<in> set xs. f x = (c::nat) \<Longrightarrow> sorted (map f xs)"
  by (induction xs) auto

lemma sorted_three_stages:
  assumes "sorted (map f pre)" and "\<forall>x \<in> set pre. f x \<le> (1::nat)"
      and "\<forall>x \<in> set evs. f x = 2"
      and "sorted (map f post)" and "\<forall>x \<in> set post. 3 \<le> f x"
  shows "sorted (map f (pre @ evs @ post))"
proof -
  have "sorted (map f evs)" using assms(3) by (rule sorted_constant)
  moreover have "\<forall>x \<in> set pre. \<forall>y \<in> set evs \<union> set post. f x \<le> f y"
    using assms(2,3,5) by fastforce
  moreover have "\<forall>x \<in> set evs. \<forall>y \<in> set post. f x \<le> f y"
    using assms(3,5) by fastforce
  ultimately show ?thesis
    using assms(1,4) by (simp add: sorted_append ball_Un)
qed

lemma create_zip_package_order:
  assumes run: "create_zip_package os_sep render recs dels out logp fs = (st, err)"
  shows "sorted (map phase (trace st))"
    and "list_all extract_call_ok (trace st)"
    and "err = None \<Longrightarrow> Ev_close_output out \<in> set (trace st)"
    and "err = None \<Longrightarrow> filter is_remove (trace st) = map Ev_remove dels"
    and "err \<noteq> None \<Longrightarrow> filter is_remove (trace st) = []"
proof -
  from create_zip_package_shape(1) [OF run] obtain pre evs post where
    tr: "trace st = pre @ evs @ post"
    and pre: "list_all (\<lambda>e. phase e \<le> 1) pre" "sorted (map phase pre)"
    and evs: "list_all (\<lambda>e. phase e = 2 \<and> extract_call_ok e) evs"
    and post: "case err of
                 Some e \<Rightarrow> (post = [] \<or> post = [Ev_close_output out]) \<and> e \<noteq> IndexError
               | None \<Rightarrow> (\<exists>wl. post = Ev_close_output out # map Ev_remove dels @ wl
                              \<and> list_all (\<lambda>e. phase e = 5) wl)"
    by blast
  have rp: "filter is_remove pre = []" "filter is_remove evs = []"
    using pre(1) evs by (fastforce intro!: filter_remove_none simp: list_all_iff)+
  have okp: "list_all extract_call_ok pre" "list_all extract_call_ok evs"
    using pre(1) evs extract_call_ok_other by (fastforce simp: list_all_iff)+
  have "sorted (map phase (trace st)) \<and> list_all extract_call_ok (trace st)
      \<and> (err = None \<longrightarrow> Ev_close_output out \<in> set (trace st)
                        \<and> filter is_remove (trace st) = map Ev_remove dels)
      \<and> (err \<noteq> None \<longrightarrow> filter is_remove (trace st) = [])"
  proof (cases err)
    case None
    with post obtain wl where p: "post = Ev_close_output out # map Ev_remove dels @ wl"
      and wl: "list_all (\<lambda>e. phase e = 5) wl"
      by auto
    have "sorted (map phase (map Ev_remove dels))" "sorted (map phase wl)"
      using wl by (auto intro!: sorted_constant simp: list_all_iff)
    then have "sorted (map phase post)"
      using wl by (auto simp: p sorted_append list_all_iff simp del: map_map)
    moreover have "\<forall>e \<in> set post. 3 \<le> phase e"
      using wl by (auto simp: p list_all_iff)
    ultimately have "sorted (map phase (trace st))"
      unfolding tr using pre evs by (intro sorted_three_stages) (auto simp: list_all_iff)
    moreover have "filter is_remove post = map Ev_remove dels"
      using wl by (simp add: p filter_remove_map filter_remove_none list_all_iff)
    moreover have "list_all extract_call_ok post"
      using wl by (auto simp: p list_all_iff extract_call_ok_other)
    ultimately show ?thesis
      using None rp okp by (simp add: tr p)
  next
    case (Some e)
    with post have p: "post = [] \<or> post = [Ev_close_output out]" by simp
    then have "sorted (map phase post)" "\<forall>e \<in> set post. 3 \<le> phase e"
      by auto
    then have "sorted (map phase (trace st))"
      unfolding tr using pre evs by (intro sorted_three_stages) (auto simp: list_all_iff)
    moreover have "filter is_remove post = []" "list_all extract_call_ok post"
      using p by auto
    ultimately show ?thesis
      using Some rp okp by (simp add: tr)
  qed
  then show "sorted (map phase (trace st))"
    and "list_all extract_call_ok (trace st)"
    and "err = None \<Longrightarrow> Ev_close_output out \<in> set (trace st)"
    and "err = None \<Longrightarrow> filter is_remove (trace st) = map Ev_remove dels"
    and "err \<noteq> None \<Longrightarrow> filter is_remove (trace st) = []"
    by blast+
qed

subsection \<open>Order of the packager's effects\<close>





subsection \<open>The extractor's precondition\<close>

lemma add_to_package_direct:
  assumes "resolve_spec os_sep full_path = (base, [])" and "disk st0 base = Some (File data)"
  shows "add_to_package os_sep logging full_path filename st0
          = (log_action logging (Log_added filename)
               (writestr filename data (emit (Ev_read_file base) st0)), None)"
  using assms
  by (simp add: add_to_package_def parse_zip_path_spec os_path_exists_def read_file_def)

text \<open>
  Claim C10. Called on a readable archive with an empty segment list, the extractor
  fails with \<open>IndexError\<close>. With one or more segments it never fails that way: it returns
  bytes exactly when the chain of segment names leads to an entry, and then those are the
  bytes of the entry named by the last segment. The packager keeps the precondition: in
  every run each call of the extractor has at least one segment, no \<open>IndexError\<close> is
  logged or raised, and a record whose address has no nesting segment is read straight
  from the physical file.
\<close>

theorem extractor_needs_segments:
  "extract_from_zip (Zip entries) [] = Inl IndexError
   \<and> (inner \<noteq> [] \<longrightarrow>
        extract_from_zip content inner \<noteq> Inl IndexError
        \<and> (extract_from_zip content inner = Inr data) = (entry_at content inner = Some data))
   \<and> (create_zip_package os_sep render recs dels out logp fs = (st, err) \<longrightarrow>
        list_all extract_call_ok (trace st) \<and> list_all no_index_error (log_lines st)
        \<and> err \<noteq> Some IndexError)
   \<and> (resolve_spec os_sep full_path = (base, []) \<and> disk st0 base = Some (File data) \<longrightarrow>
        add_to_package os_sep logging full_path filename st0
          = (log_action logging (Log_added filename)
               (writestr filename data (emit (Ev_read_file base) st0)), None))"
proof (intro conjI impI)
  show "extract_from_zip (Zip entries) [] = Inl IndexError" by simp
next
  assume "inner \<noteq> []"
  then show "extract_from_zip content inner \<noteq> Inl IndexError"
    by (rule extract_from_zip_no_index_error)
next
  assume "inner \<noteq> []"
  then show "(extract_from_zip content inner = Inr data) = (entry_at content inner = Some data)"
    by (rule extract_from_zip_entry_at)
next
  assume run: "create_zip_package os_sep render recs dels out logp fs = (st, err)"
  show "list_all extract_call_ok (trace st)"
    using run by (rule create_zip_package_order(2))
  show "list_all no_index_error (log_lines st)"
    using run by (rule create_zip_package_shape(2))
  show "err \<noteq> Some IndexError"
    using create_zip_package_shape(1) [OF run] by auto
next
  assume "resolve_spec os_sep full_path = (base, []) \<and> disk st0 base = Some (File data)"
  then show "add_to_package os_sep logging full_path filename st0
          = (log_action logging (Log_added filename)
               (writestr filename data (emit (Ev_read_file base) st0)), None)"
    using add_to_package_direct by blast
qed

theorem extractor_needs_segments_witness:
  "extract_from_zip package_archive [] = Inl IndexError
   \<and> extract_from_zip package_archive [''in/a.zip'', ''b.zip'', ''03-B001-2.xml'']
       = Inr (Data ''three'')
   \<and> entry_at package_archive [''in/a.zip'', ''b.zip'', ''03-B001-2.xml'']
       = Some (Data ''three'')
   \<and> list_all extract_call_ok (trace (fst example_package))
   \<and> list_all no_index_error (log_lines (fst example_package))
   \<and> snd example_package \<noteq> Some IndexError
   \<and> add_to_package CHR ''/'' True ''/data/01-F001-7.xml'' ''01-F001-7.xml'' package_start
       = (log_action True (Log_added ''01-F001-7.xml'')
            (writestr ''01-F001-7.xml'' (Data ''zero'')
               (emit (Ev_read_file ''/data/01-F001-7.xml'') package_start)), None)"
proof -
  have run: "create_zip_package CHR ''/'' example_render package_records
       [''/data/01-F001-7.xml'', ''/data/r.zip''] ''/out/c.zip'' (Some ''logs/p.txt'')
       package_disk = (fst example_package, snd example_package)"
    by (simp add: example_package_def)
  have ne: "[''in/a.zip'', ''b.zip'', ''03-B001-2.xml''] \<noteq> []" by simp
  have e: "entry_at package_archive [''in/a.zip'', ''b.zip'', ''03-B001-2.xml'']
      = Some (Data ''three'')"
    by code_simp
  have r: "resolve_spec CHR ''/'' ''/data/01-F001-7.xml'' = (''/data/01-F001-7.xml'', [])"
    by code_simp
  have d: "disk package_start ''/data/01-F001-7.xml'' = Some (File (Data ''zero''))"
    by (simp add: package_start_def package_disk_def)
  note inst = extractor_needs_segments [where entries = "[(''07-C001-1.xml'', Data ''one''),
          (''in/a.zip'',
             Zip [(''08-D001-1.xml'', Data ''two''),
                  (''b.zip'', Zip [(''03-B001-2.xml'', Data ''three'')])])]"
      and inner = "[''in/a.zip'', ''b.zip'', ''03-B001-2.xml'']" and content = package_archive
      and data = "Data ''three''" and os_sep = "CHR ''/''" and render = example_render
      and recs = package_records and dels = "[''/data/01-F001-7.xml'', ''/data/r.zip'']"
      and out = "''/out/c.zip''" and logp = "Some ''logs/p.txt''" and fs = package_disk
      and st = "fst example_package" and err = "snd example_package"
      and full_path = "''/data/01-F001-7.xml''" and base = "''/data/01-F001-7.xml''"
      and ?st0.0 = package_start and logging = True and filename = "''01-F001-7.xml''"]
  note c1 = inst [THEN conjunct1, folded package_archive_def]
  note c2 = inst [THEN conjunct2, THEN conjunct1, rule_format, OF ne]
  note c3 = inst [THEN conjunct2, THEN conjunct2, THEN conjunct1, rule_format, OF run]
  have c4: "add_to_package CHR ''/'' True ''/data/01-F001-7.xml'' ''01-F001-7.xml'' package_start
       = (log_action True (Log_added ''01-F001-7.xml'')
            (writestr ''01-F001-7.xml'' (Data ''zero'')
               (emit (Ev_read_file ''/data/01-F001-7.xml'') package_start)), None)"
    using extractor_needs_segments [where os_sep = "CHR ''/''"
        and full_path = "''/data/01-F001-7.xml''" and base = "''/data/01-F001-7.xml''"
        and ?st0.0 = package_start and data = "Data ''zero''" and logging = True
        and filename = "''01-F001-7.xml''", THEN conjunct2, THEN conjunct2, THEN conjunct2,
        rule_format, OF conjI [OF r d]] .
  from c2 e have x: "extract_from_zip package_archive [''in/a.zip'', ''b.zip'', ''03-B001-2.xml'']
       = Inr (Data ''three'')"
    by simp
  show ?thesis
    using c1 x e c3 c4 by (simp only: simp_thms)
qed

end
